theory Spec2Isabelle
  imports Complex_Main "HOL-Library.AList"
begin

section \<open>Text primitives of the host language\<close>

text \<open>
  Statement text is modelled as \<^typ>\<open>string\<close>, a character being a code point below 256:
  the character classes below are those of Python's \<^verbatim>\<open>str.isspace\<close>,
  \<^verbatim>\<open>str.isdigit\<close> and \<^verbatim>\<open>str.upper\<close> on these code points. Whitespace includes
  the separators U+001C to U+001F, the next-line character U+0085 and the no-break space
  U+00A0; the digits include the superscripts U+00B2, U+00B3 and U+00B9.
\<close>

definition whitespace :: "char list" where
  "whitespace = [CHR 0x09, CHR 0x0A, CHR 0x0B, CHR 0x0C, CHR 0x0D,
                 CHR 0x1C, CHR 0x1D, CHR 0x1E, CHR 0x1F, CHR 0x20, CHR 0x85, CHR 0xA0]"

definition isspace :: "char \<Rightarrow> bool" where
  "isspace c = (c \<in> set whitespace)"

definition isdigit_char :: "char \<Rightarrow> bool" where
  "isdigit_char c = (c \<in> set (''0123456789'' @ [CHR 0xB2, CHR 0xB3, CHR 0xB9]))"

text \<open>\<^verbatim>\<open>s.isdigit()\<close>: non-empty and every character a digit.\<close>

definition isdigit :: "string \<Rightarrow> bool" where
  "isdigit s = (s \<noteq> [] \<and> list_all isdigit_char s)"

text \<open>
  \<^verbatim>\<open>str.upper\<close>, character by character: the letters a to z, and the accented letters
  U+00E0 to U+00FE (the division sign U+00F7 apart), which move down by 32. Three
  characters have an upper-case form that is no code point below 256 (U+00B5 and U+00FF
  become U+039C and U+0178, U+00DF becomes the two letters SS); they are left as they
  are. The engine only compares upper-cased text with its keywords, none of which contains
  SS or a character above 127, so these comparisons are not affected.
\<close>

definition upper_char :: "char \<Rightarrow> char" where
  "upper_char c =
     (case map_of (zip (''abcdefghijklmnopqrstuvwxyz''
                        @ [CHR 0xE0, CHR 0xE1, CHR 0xE2, CHR 0xE3, CHR 0xE4, CHR 0xE5, CHR 0xE6,
                           CHR 0xE7, CHR 0xE8, CHR 0xE9, CHR 0xEA, CHR 0xEB, CHR 0xEC, CHR 0xED,
                           CHR 0xEE, CHR 0xEF, CHR 0xF0, CHR 0xF1, CHR 0xF2, CHR 0xF3, CHR 0xF4,
                           CHR 0xF5, CHR 0xF6, CHR 0xF8, CHR 0xF9, CHR 0xFA, CHR 0xFB, CHR 0xFC,
                           CHR 0xFD, CHR 0xFE])
                       (''ABCDEFGHIJKLMNOPQRSTUVWXYZ''
                        @ [CHR 0xC0, CHR 0xC1, CHR 0xC2, CHR 0xC3, CHR 0xC4, CHR 0xC5, CHR 0xC6,
                           CHR 0xC7, CHR 0xC8, CHR 0xC9, CHR 0xCA, CHR 0xCB, CHR 0xCC, CHR 0xCD,
                           CHR 0xCE, CHR 0xCF, CHR 0xD0, CHR 0xD1, CHR 0xD2, CHR 0xD3, CHR 0xD4,
                           CHR 0xD5, CHR 0xD6, CHR 0xD8, CHR 0xD9, CHR 0xDA, CHR 0xDB, CHR 0xDC,
                           CHR 0xDD, CHR 0xDE])) c of
        Some d \<Rightarrow> d
      | None \<Rightarrow> c)"

definition upper :: "string \<Rightarrow> string" where
  "upper s = map upper_char s"

text \<open>\<^verbatim>\<open>s.strip()\<close> and \<^verbatim>\<open>s.strip("'")\<close>.\<close>

definition strip_with :: "(char \<Rightarrow> bool) \<Rightarrow> string \<Rightarrow> string" where
  "strip_with P s = rev (dropWhile P (rev (dropWhile P s)))"

definition strip :: "string \<Rightarrow> string" where
  "strip s = strip_with isspace s"

definition strip_quote :: "string \<Rightarrow> string" where
  "strip_quote s = strip_with (\<lambda>c. c = CHR 0x27) s"

text \<open>\<^verbatim>\<open>s.startswith(p)\<close> and \<^verbatim>\<open>p in s\<close>.\<close>

definition startswith :: "string \<Rightarrow> string \<Rightarrow> bool" where
  "startswith s p = (take (length p) s = p)"

fun contains :: "string \<Rightarrow> string \<Rightarrow> bool" where
  "contains p [] = (p = [])"
| "contains p (c # cs) = (startswith (c # cs) p \<or> contains p cs)"

text \<open>\<^verbatim>\<open>s.split(d)\<close> for a one-character separator: the result is never empty.\<close>

fun split_char :: "char \<Rightarrow> string \<Rightarrow> string list" where
  "split_char d [] = [[]]"
| "split_char d (c # cs) =
     (if c = d then [] # split_char d cs
      else (case split_char d cs of
              p # ps \<Rightarrow> (c # p) # ps
            | [] \<Rightarrow> [[c]]))"

text \<open>
  \<^verbatim>\<open>l, r = s.split(sep, 1)\<close> for a non-empty separator: the two parts around the
  leftmost occurrence, or \<open>None\<close> when there is none (the unpacking then raises).
\<close>

fun split_once :: "string \<Rightarrow> string \<Rightarrow> (string \<times> string) option" where
  "split_once sep [] = None"
| "split_once sep (c # cs) =
     (if startswith (c # cs) sep then Some ([], drop (length sep) (c # cs))
      else (case split_once sep cs of
              None \<Rightarrow> None
            | Some (l, r) \<Rightarrow> Some (c # l, r)))"

text \<open>\<^verbatim>\<open>s.split()\<close>: the maximal runs of non-whitespace characters.\<close>

fun split_ws_from :: "string \<Rightarrow> string \<Rightarrow> string list" where
  "split_ws_from cur [] = (if cur = [] then [] else [cur])"
| "split_ws_from cur (c # cs) =
     (if isspace c then (if cur = [] then split_ws_from [] cs else cur # split_ws_from [] cs)
      else split_ws_from (cur @ [c]) cs)"

definition split_ws :: "string \<Rightarrow> string list" where
  "split_ws s = split_ws_from [] s"

text \<open>
  \<^verbatim>\<open>re.split(r'\s+KW\s+', s, flags=re.IGNORECASE)\<close> for a keyword \<open>KW\<close> of letters.
  A separator starts at a whitespace character; the greedy \<^verbatim>\<open>\s+\<close> takes the whole
  run of whitespace, and giving characters back cannot help, since the keyword does not
  start with whitespace. \<open>match_sep\<close> returns the text after a separator that starts
  at the head of the string.
\<close>

definition match_sep :: "string \<Rightarrow> string \<Rightarrow> string option" where
  "match_sep kw s =
     (let s1 = dropWhile isspace s;
          s2 = drop (length kw) s1;
          s3 = dropWhile isspace s2
      in if s1 \<noteq> s \<and> upper (take (length kw) s1) = kw \<and> s3 \<noteq> s2 then Some s3 else None)"

lemma dropWhile_changed_shorter:
  "dropWhile P s \<noteq> s \<Longrightarrow> length (dropWhile P s) < length s"
proof (cases s)
  case Nil
  then show "dropWhile P s \<noteq> s \<Longrightarrow> ?thesis" by simp
next
  case (Cons x xs)
  assume ne: "dropWhile P s \<noteq> s"
  with Cons have "P x" by (cases "P x") auto
  then have "dropWhile P s = dropWhile P xs" using Cons by simp
  moreover have "length (dropWhile P xs) \<le> length xs" by (rule length_dropWhile_le)
  ultimately show ?thesis using Cons by simp
qed

lemma match_sep_shorter: "match_sep kw s = Some r \<Longrightarrow> length r < length s"
proof -
  assume a: "match_sep kw s = Some r"
  define s1 where "s1 = dropWhile isspace s"
  define s2 where "s2 = drop (length kw) s1"
  from a have r: "r = dropWhile isspace s2" and ne: "s1 \<noteq> s"
    by (auto simp: match_sep_def Let_def s1_def s2_def split: if_splits)
  have "length s1 < length s"
    using ne unfolding s1_def by (rule dropWhile_changed_shorter)
  moreover have "length r \<le> length s2" unfolding r by (rule length_dropWhile_le)
  moreover have "length s2 \<le> length s1" unfolding s2_def by simp
  ultimately show ?thesis by simp
qed

function re_split :: "string \<Rightarrow> string \<Rightarrow> string list" where
  "re_split kw [] = [[]]"
| "re_split kw (c # cs) =
     (case match_sep kw (c # cs) of
        Some rest \<Rightarrow> [] # re_split kw rest
      | None \<Rightarrow> (case re_split kw cs of
                   p # ps \<Rightarrow> (c # p) # ps
                 | [] \<Rightarrow> [[c]]))"
  by pat_completeness auto
termination
  by (relation "measure (\<lambda>(kw, s). length s)") (auto dest: match_sep_shorter)

section \<open>Values\<close>

text \<open>
  A cell holds an \<^verbatim>\<open>int\<close>, a \<^verbatim>\<open>float\<close>, a \<^verbatim>\<open>bool\<close>, \<^verbatim>\<open>None\<close> or a \<^verbatim>\<open>str\<close>.
  A float is a double: a finite one is kept as the rational number it equals, and
  \<^verbatim>\<open>inf\<close> (which \<^verbatim>\<open>float()\<close> returns on a decimal beyond the range of a double) is
  \<open>Infinity\<close>. The engine does no arithmetic, so no other float arises from a literal.
\<close>

datatype pyfloat = Finite rat | Infinity

datatype pyval = VInt int | VReal pyfloat | VBool bool | VNone | VText string


section \<open>Schema model\<close>

datatype DataType = INTEGER | TEXT | REAL | BOOLEAN | DATE

record column =
  col_name :: string
  data_type :: DataType
  is_primary :: bool
  is_unique :: bool
  is_nullable :: bool

text \<open>
  A row is a \<^verbatim>\<open>dict\<close> from column name to value, kept as an association list in
  insertion order: \<open>map_of\<close> reads a key, \<open>AList.update\<close> assigns one (in place when the
  key is there, at the end otherwise).
\<close>

type_synonym row = "(string \<times> pyval) list"

text \<open>\<^verbatim>\<open>row.get(k)\<close> and \<^verbatim>\<open>row.get(k, d)\<close>.\<close>

definition row_get_default :: "row \<Rightarrow> string \<Rightarrow> pyval \<Rightarrow> pyval" where
  "row_get_default r k d = (case map_of r k of None \<Rightarrow> d | Some v \<Rightarrow> v)"

definition row_get :: "row \<Rightarrow> string \<Rightarrow> pyval" where
  "row_get r k = row_get_default r k VNone"

text \<open>
  An index maps a key tuple to the list of the positions of the rows with that key. Its
  \<open>entries\<close> are a \<^verbatim>\<open>dict\<close> keyed by tuples, which finds a key by Python's \<^verbatim>\<open>==\<close>.
\<close>

record index =
  column_names :: "string list"
  entries :: "(pyval list \<times> nat list) list"

record table =
  table_name :: string
  columns :: "column list"
  rows :: "row list"
  indexes :: "(string \<times> index) list"
  next_row_id :: int
  primary_key_column :: "column option"

subsection \<open>Equality and type tests of the host language\<close>

text \<open>
  \<^verbatim>\<open>==\<close> compares \<^verbatim>\<open>int\<close>, \<^verbatim>\<open>float\<close> and \<^verbatim>\<open>bool\<close> by numeric value
  (\<^verbatim>\<open>True == 1\<close>, \<^verbatim>\<open>1 == 1.0\<close>); \<^verbatim>\<open>None\<close> and text are equal only to themselves.
\<close>

fun num_of :: "pyval \<Rightarrow> pyfloat option" where
  "num_of (VInt i) = Some (Finite (of_int i))"
| "num_of (VReal x) = Some x"
| "num_of (VBool b) = Some (Finite (if b then 1 else 0))"
| "num_of VNone = None"
| "num_of (VText s) = None"

definition py_eq :: "pyval \<Rightarrow> pyval \<Rightarrow> bool" where
  "py_eq a b =
     (case num_of a of
        Some x \<Rightarrow> (case num_of b of Some y \<Rightarrow> x = y | None \<Rightarrow> False)
      | None \<Rightarrow> (case num_of b of Some y \<Rightarrow> False | None \<Rightarrow> a = b))"

text \<open>Equality of two key tuples.\<close>

definition key_eq :: "pyval list \<Rightarrow> pyval list \<Rightarrow> bool" where
  "key_eq k k' = list_all2 py_eq k k'"

text \<open>\<^verbatim>\<open>isinstance(v, int)\<close> (a \<^verbatim>\<open>bool\<close> is an \<^verbatim>\<open>int\<close>), \<^verbatim>\<open>isinstance(v, (int, float))\<close>,
  \<^verbatim>\<open>isinstance(v, bool)\<close>.\<close>

fun isinstance_int :: "pyval \<Rightarrow> bool" where
  "isinstance_int (VInt i) = True"
| "isinstance_int (VBool b) = True"
| "isinstance_int v = False"

fun isinstance_int_float :: "pyval \<Rightarrow> bool" where
  "isinstance_int_float (VInt i) = True"
| "isinstance_int_float (VBool b) = True"
| "isinstance_int_float (VReal r) = True"
| "isinstance_int_float v = False"

fun isinstance_bool :: "pyval \<Rightarrow> bool" where
  "isinstance_bool (VBool b) = True"
| "isinstance_bool v = False"

section \<open>Errors and the engine state\<close>

datatype error =
    ValueError string
  | KeyError string
  | IndexError
  | TypeError
  | RegexError

definition quoted :: "string \<Rightarrow> string" where
  "quoted s = CHR 0x27 # s @ [CHR 0x27]"

text \<open>
  The engine: the catalog, the transaction log and flag, and the data directory, which holds
  one pickled table per file (\<open>disk\<close>, keyed by table name).
\<close>

record engine =
  tables :: "string \<rightharpoonup> table"
  transaction_log :: "string list"
  in_transaction :: bool
  disk :: "string \<rightharpoonup> table"

text \<open>
  \<open>save_table\<close> pickles the catalog's table under its name. Every caller has just read or
  stored that table, so the lookup of the source cannot fail there.
\<close>

definition save_table :: "engine \<Rightarrow> string \<Rightarrow> engine" where
  "save_table st name =
     (case tables st name of
        None \<Rightarrow> st
      | Some table \<Rightarrow> st\<lparr>disk := (disk st)(name \<mapsto> table)\<rparr>)"

text \<open>\<open>load_tables\<close> unpickles every file of the directory into the catalog.\<close>

definition load_tables :: "engine \<Rightarrow> engine" where
  "load_tables st = st\<lparr>tables := tables st ++ disk st\<rparr>"

section \<open>The library functions the engine calls\<close>

text \<open>
  The engine matches each statement against a fixed pattern with \<^verbatim>\<open>re.match\<close>, converts
  text to numbers with \<^verbatim>\<open>int\<close> and \<^verbatim>\<open>float\<close>, sorts with \<^verbatim>\<open>list.sort\<close> and
  prints floats with \<^verbatim>\<open>str\<close>. These belong to the host language's library, not to the
  engine, and are parameters of the model: each \<open>re_\<close> field gives the groups of the
  statement's pattern on a text (\<open>None\<close>: no match), \<open>re_match_like\<close> is
  \<^verbatim>\<open>bool(re.match(pattern, s))\<close> (which raises on a malformed pattern), \<open>py_int\<close> and
  \<open>py_float\<close> are \<^verbatim>\<open>int(v)\<close> and \<^verbatim>\<open>float(v)\<close> (which raise \<^verbatim>\<open>ValueError\<close> on
  text they do not accept, such as a superscript digit or an integer longer than the
  interpreter's limit; \<^verbatim>\<open>float\<close> rounds to the nearest double), \<open>list_sort\<close> sorts rows
  by their keys (and raises on keys that do not compare).
\<close>

record pylib =
  re_create_table :: "string \<Rightarrow> (string \<times> string) option"
  re_insert :: "string \<Rightarrow> (string \<times> string option \<times> string) option"
  re_select :: "string \<Rightarrow> (string \<times> string \<times> string option \<times> string option) option"
  re_update :: "string \<Rightarrow> (string \<times> string \<times> string option) option"
  re_delete :: "string \<Rightarrow> (string \<times> string option) option"
  re_drop_table :: "string \<Rightarrow> string option"
  re_create_index :: "string \<Rightarrow> (string \<times> string \<times> string) option"
  re_match_like :: "string \<Rightarrow> string \<Rightarrow> error + bool"
  py_int :: "string \<Rightarrow> error + int"
  py_float :: "string \<Rightarrow> error + pyfloat"
  str_float :: "pyfloat \<Rightarrow> string"
  list_sort :: "(pyval list \<times> row) list \<Rightarrow> error + row list"

section \<open>Type inference of literals\<close>

text \<open>
  The type inference written out at three places of the source (the value list of INSERT,
  the SET clause of UPDATE, the right-hand side of a comparison), on a token that has
  already been stripped of whitespace and single quotes. The conversions \<^verbatim>\<open>int(v)\<close> and
  \<^verbatim>\<open>float(v)\<close> may raise; the error then leaves the statement.
\<close>

definition infer_type :: "pylib \<Rightarrow> string \<Rightarrow> error + pyval" where
  "infer_type L v =
     (if isdigit v
      then (case py_int L v of Inl e \<Rightarrow> Inl e | Inr i \<Rightarrow> Inr (VInt i))
      else if isdigit (remove1 (CHR ''.'') v)
      then (case py_float L v of Inl e \<Rightarrow> Inl e | Inr x \<Rightarrow> Inr (VReal x))
      else if upper v \<in> set [''TRUE'', ''FALSE''] then Inr (VBool (upper v = ''TRUE''))
      else if v = ''NULL'' then Inr VNone
      else Inr (VText v))"

definition parse_literal :: "pylib \<Rightarrow> string \<Rightarrow> error + pyval" where
  "parse_literal L tok = infer_type L (strip_quote (strip tok))"

section \<open>Constraint validation\<close>

text \<open>The loop of \<open>validate_row\<close> over the declared columns; \<open>Some e\<close> is the raised error.\<close>

fun validate_columns :: "row list \<Rightarrow> row \<Rightarrow> column list \<Rightarrow> error option" where
  "validate_columns existing r [] = None"
| "validate_columns existing r (col # cols) =
     (case map_of r (col_name col) of
        None \<Rightarrow>
          if \<not> is_nullable col
          then Some (ValueError (''Column '' @ quoted (col_name col) @ '' cannot be NULL''))
          else validate_columns existing r cols
      | Some v \<Rightarrow>
          if v \<noteq> VNone \<and> data_type col = INTEGER \<and> \<not> isinstance_int v
          then Some (ValueError (''Column '' @ quoted (col_name col) @ '' expects INTEGER''))
          else if v \<noteq> VNone \<and> data_type col = REAL \<and> \<not> isinstance_int_float v
          then Some (ValueError (''Column '' @ quoted (col_name col) @ '' expects REAL''))
          else if v \<noteq> VNone \<and> data_type col = BOOLEAN \<and> \<not> isinstance_bool v
          then Some (ValueError (''Column '' @ quoted (col_name col) @ '' expects BOOLEAN''))
          else if is_unique col \<and> v \<noteq> VNone
                  \<and> list_ex (\<lambda>existing_row. py_eq (row_get existing_row (col_name col)) v) existing
          then Some (ValueError (''Duplicate value for unique column '' @ quoted (col_name col)))
          else validate_columns existing r cols)"

definition validate_row :: "table \<Rightarrow> row \<Rightarrow> error option" where
  "validate_row table r = validate_columns (rows table) r (columns table)"

section \<open>Indexes\<close>

text \<open>The key of a row under an index: \<^verbatim>\<open>tuple(row[col] for col in column_names if col in row)\<close>.\<close>

definition index_key :: "string list \<Rightarrow> row \<Rightarrow> pyval list" where
  "index_key cols r = List.map_filter (map_of r) cols"

text \<open>
  \<^verbatim>\<open>if key not in entries: entries[key] = []\<close> followed by
  \<^verbatim>\<open>entries[key].append(p)\<close>.
\<close>

fun entries_append :: "pyval list \<Rightarrow> nat \<Rightarrow> (pyval list \<times> nat list) list
    \<Rightarrow> (pyval list \<times> nat list) list" where
  "entries_append key p [] = [(key, [p])]"
| "entries_append key p ((k, ps) # es) =
     (if key_eq k key then (k, ps @ [p]) # es else (k, ps) # entries_append key p es)"

text \<open>The body of the engine's \<open>rebuild_index\<close>: clear, then enter every row at its position.\<close>

fun index_rows_from :: "string list \<Rightarrow> nat \<Rightarrow> row list
    \<Rightarrow> (pyval list \<times> nat list) list \<Rightarrow> (pyval list \<times> nat list) list" where
  "index_rows_from cols i [] es = es"
| "index_rows_from cols i (r # rs) es =
     index_rows_from cols (Suc i) rs (entries_append (index_key cols r) i es)"

definition rebuild_index :: "table \<Rightarrow> index \<Rightarrow> index" where
  "rebuild_index table idx =
     idx\<lparr>entries := index_rows_from (column_names idx) 0 (rows table) []\<rparr>"

section \<open>INSERT\<close>

definition make_row :: "string list \<Rightarrow> pyval list \<Rightarrow> row" where
  "make_row col_names vals = fold (\<lambda>(k, v) r. AList.update k v r) (zip col_names vals) []"

text \<open>Appending the validated row and entering its position in every index.\<close>

definition add_row :: "table \<Rightarrow> row \<Rightarrow> table" where
  "add_row table r =
     (let rows' = rows table @ [r]
      in table\<lparr>rows := rows',
               indexes := map (\<lambda>(n, idx).
                   (n, idx\<lparr>entries := entries_append (index_key (column_names idx) r)
                                          (length rows' - 1) (entries idx)\<rparr>))
                 (indexes table)\<rparr>)"

text \<open>The column names and the values of the statement, and the candidate row built from them.\<close>

definition insert_col_names :: "table \<Rightarrow> string option \<Rightarrow> string list" where
  "insert_col_names table columns_str =
     (case columns_str of
        None \<Rightarrow> map col_name (columns table)
      | Some cs \<Rightarrow>
          if cs = [] then map col_name (columns table)
          else map strip (split_char (CHR '','') cs))"

text \<open>The loop over the tokens of the value list: the first conversion that raises ends it.\<close>

fun parse_values :: "pylib \<Rightarrow> string list \<Rightarrow> error + pyval list" where
  "parse_values L [] = Inr []"
| "parse_values L (tok # toks) =
     (case parse_literal L tok of
        Inl e \<Rightarrow> Inl e
      | Inr v \<Rightarrow> (case parse_values L toks of
                   Inl e \<Rightarrow> Inl e
                 | Inr vs \<Rightarrow> Inr (v # vs)))"

definition insert_values :: "pylib \<Rightarrow> string \<Rightarrow> error + pyval list" where
  "insert_values L values_str = parse_values L (split_char (CHR '','') values_str)"

definition candidate_row :: "table \<Rightarrow> string option \<Rightarrow> pyval list \<Rightarrow> row" where
  "candidate_row table columns_str vals = make_row (insert_col_names table columns_str) vals"

text \<open>
  \<open>execute_insert\<close> after its pattern has matched: \<open>g\<close> holds the three groups (table name,
  optional column list, value list).
\<close>

definition insert_groups :: "pylib \<Rightarrow> engine \<Rightarrow> string \<times> string option \<times> string
    \<Rightarrow> engine \<times> (error + row list)" where
  "insert_groups L st g =
     (case g of (tname, columns_str, values_str) \<Rightarrow>
      (case tables st tname of
         None \<Rightarrow> (st, Inl (ValueError (''Table '' @ quoted tname @ '' does not exist'')))
       | Some table \<Rightarrow>
          (case insert_values L values_str of
             Inl e \<Rightarrow> (st, Inl e)
           | Inr vals \<Rightarrow>
              if length (insert_col_names table columns_str) \<noteq> length vals
              then (st, Inl (ValueError (''Column count doesn'' @ [CHR 0x27]
                                          @ ''t match value count'')))
              else (let r = candidate_row table columns_str vals
                    in (case validate_row table r of
                          Some e \<Rightarrow> (st, Inl e)
                        | None \<Rightarrow>
                           (let table' = add_row table r;
                                st' = save_table (st\<lparr>tables := (tables st)(tname \<mapsto> table')\<rparr>)
                                        tname
                            in (st', Inr [[(''status'', VText ''Row inserted successfully''),
                                          (''row_id'', VInt (int (length (rows table'))))]])))))))"

definition execute_insert :: "pylib \<Rightarrow> engine \<Rightarrow> string \<Rightarrow> engine \<times> (error + row list)" where
  "execute_insert L st sql =
     (case re_insert L sql of
        None \<Rightarrow> (st, Inl (ValueError ''Invalid INSERT syntax''))
      | Some g \<Rightarrow> insert_groups L st g)"

section \<open>Predicate evaluation\<close>

text \<open>Decimal text of an integer, \<^verbatim>\<open>str(n)\<close>.\<close>

fun str_nat :: "nat \<Rightarrow> string" where
  "str_nat n =
     (if n < 10 then [''0123456789'' ! n]
      else str_nat (n div 10) @ [''0123456789'' ! (n mod 10)])"

declare str_nat.simps [simp del]

definition str_int :: "int \<Rightarrow> string" where
  "str_int i = (if i < 0 then CHR ''-'' # str_nat (nat (- i)) else str_nat (nat i))"

text \<open>Truthiness and \<^verbatim>\<open>str\<close> of a value, for \<^verbatim>\<open>str(left_val or "")\<close>.\<close>

fun truthy :: "pyval \<Rightarrow> bool" where
  "truthy (VInt i) = (i \<noteq> 0)"
| "truthy (VReal x) = (x \<noteq> Finite 0)"
| "truthy (VBool b) = b"
| "truthy VNone = False"
| "truthy (VText s) = (s \<noteq> [])"

fun py_str :: "pylib \<Rightarrow> pyval \<Rightarrow> string" where
  "py_str L (VInt i) = str_int i"
| "py_str L (VReal x) = str_float L x"
| "py_str L (VBool b) = (if b then ''True'' else ''False'')"
| "py_str L VNone = ''None''"
| "py_str L (VText s) = s"

text \<open>
  Ordering: numbers (and booleans) compare by value, text with text by code point, and any
  other pair raises \<^verbatim>\<open>TypeError\<close>.
\<close>

fun str_lt :: "string \<Rightarrow> string \<Rightarrow> bool" where
  "str_lt [] [] = False"
| "str_lt [] (y # ys) = True"
| "str_lt (x # xs) [] = False"
| "str_lt (x # xs) (y # ys) =
     ((of_char x :: nat) < of_char y \<or> (x = y \<and> str_lt xs ys))"

fun float_lt :: "pyfloat \<Rightarrow> pyfloat \<Rightarrow> bool" where
  "float_lt (Finite x) (Finite y) = (x < y)"
| "float_lt (Finite x) Infinity = True"
| "float_lt Infinity y = False"

fun float_le :: "pyfloat \<Rightarrow> pyfloat \<Rightarrow> bool" where
  "float_le (Finite x) (Finite y) = (x \<le> y)"
| "float_le x Infinity = True"
| "float_le Infinity (Finite y) = False"

fun text_of :: "pyval \<Rightarrow> string option" where
  "text_of (VText s) = Some s"
| "text_of v = None"

definition py_lt :: "pyval \<Rightarrow> pyval \<Rightarrow> error + bool" where
  "py_lt a b =
     (case (num_of a, num_of b) of
        (Some x, Some y) \<Rightarrow> Inr (float_lt x y)
      | _ \<Rightarrow> (case (text_of a, text_of b) of
                (Some s, Some t) \<Rightarrow> Inr (str_lt s t)
              | _ \<Rightarrow> Inl TypeError))"

definition py_le :: "pyval \<Rightarrow> pyval \<Rightarrow> error + bool" where
  "py_le a b =
     (case (num_of a, num_of b) of
        (Some x, Some y) \<Rightarrow> Inr (float_le x y)
      | _ \<Rightarrow> (case (text_of a, text_of b) of
                (Some s, Some t) \<Rightarrow> Inr (\<not> str_lt t s)
              | _ \<Rightarrow> Inl TypeError))"

definition operators :: "string list" where
  "operators = [''='', ''!='', ''<'', ''>'', ''<='', ''>='', ''LIKE'', ''IS NULL'', ''IS NOT NULL'']"

text \<open>
  The loop over the operator list in \<open>evaluate_where\<close>: the first operator found in the
  upper-cased condition (between spaces) decides; the condition itself is split at the
  operator as written in the list, and the unpacking raises when that spelling is absent.
\<close>

fun eval_comparison :: "pylib \<Rightarrow> row \<Rightarrow> string \<Rightarrow> string list \<Rightarrow> error + bool" where
  "eval_comparison L r condition [] = Inr False"
| "eval_comparison L r condition (op # ops) =
     (if contains ('' '' @ op @ '' '') (upper condition)
      then (case split_once ('' '' @ op @ '' '') condition of
              None \<Rightarrow> Inl (ValueError ''not enough values to unpack (expected 2, got 1)'')
            | Some (left0, right0) \<Rightarrow>
               (let left = strip left0;
                    right = strip_quote (strip right0);
                    left_val = row_get r left
                in if upper op = ''IS NULL'' then Inr (left_val = VNone)
                   else if upper op = ''IS NOT NULL'' then Inr (left_val \<noteq> VNone)
                   else if upper op = ''LIKE''
                   then re_match_like L
                          (concat (map (\<lambda>c. if c = CHR ''%'' then ''.*'' else [c]) right))
                          (if truthy left_val then py_str L left_val else [])
                   else (case infer_type L right of
                           Inl e \<Rightarrow> Inl e
                         | Inr right_val \<Rightarrow>
                            if op = ''='' then Inr (py_eq left_val right_val)
                            else if op = ''!='' then Inr (\<not> py_eq left_val right_val)
                            else if op = ''<'' then py_lt left_val right_val
                            else if op = ''>'' then py_lt right_val left_val
                            else if op = ''<='' then py_le left_val right_val
                            else if op = ''>='' then py_le right_val left_val
                            else eval_comparison L r condition ops)))
      else eval_comparison L r condition ops)"

text \<open>\<^verbatim>\<open>all(f(p) for p in parts)\<close> and \<^verbatim>\<open>any(f(p) for p in parts)\<close>: lazy, left to right.\<close>

fun all_results :: "('a \<Rightarrow> error + bool) \<Rightarrow> 'a list \<Rightarrow> error + bool" where
  "all_results f [] = Inr True"
| "all_results f (p # ps) =
     (case f p of
        Inl e \<Rightarrow> Inl e
      | Inr b \<Rightarrow> if b then all_results f ps else Inr False)"

fun any_results :: "('a \<Rightarrow> error + bool) \<Rightarrow> 'a list \<Rightarrow> error + bool" where
  "any_results f [] = Inr False"
| "any_results f (p # ps) =
     (case f p of
        Inl e \<Rightarrow> Inl e
      | Inr b \<Rightarrow> if b then Inr True else any_results f ps)"

lemma all_results_cong [fundef_cong]:
  "ps = qs \<Longrightarrow> (\<And>p. p \<in> set qs \<Longrightarrow> f p = g p) \<Longrightarrow> all_results f ps = all_results g qs"
proof (induction qs arbitrary: ps)
  case Nil
  then show ?case by simp
next
  case (Cons q qs)
  then show ?case by (auto split: sum.splits)
qed

lemma any_results_cong [fundef_cong]:
  "ps = qs \<Longrightarrow> (\<And>p. p \<in> set qs \<Longrightarrow> f p = g p) \<Longrightarrow> any_results f ps = any_results g qs"
proof (induction qs arbitrary: ps)
  case Nil
  then show ?case by simp
next
  case (Cons q qs)
  then show ?case by (auto split: sum.splits)
qed

text \<open>
  Termination of \<open>evaluate_where\<close>: when the separator occurs in the upper-cased condition,
  the pattern matches there, so every part of the split is shorter than the condition.
\<close>

lemma upper_char_space: "upper_char c = CHR '' '' \<Longrightarrow> c = CHR '' ''"
  unfolding upper_char_def by (simp split: if_splits)

lemma isspace_upper_char: "isspace c \<Longrightarrow> upper_char c = c"
  unfolding isspace_def whitespace_def 
  apply simp
  apply (elim disjE)
  apply (simp_all add: upper_char_def)
  done

lemma isspace_space: "isspace (CHR '' '')"
  by (simp add: isspace_def whitespace_def)

lemma dropWhile_head_changes: "s \<noteq> [] \<Longrightarrow> P (hd s) \<Longrightarrow> dropWhile P s \<noteq> s"
proof (cases s)
  case Nil
  then show "s \<noteq> [] \<Longrightarrow> ?thesis" by simp
next
  case (Cons x xs)
  assume "P (hd s)"
  then have "dropWhile P s = dropWhile P xs" using Cons by simp
  moreover have "length (dropWhile P xs) \<le> length xs" by (rule length_dropWhile_le)
  ultimately have "length (dropWhile P s) < length s" using Cons by simp
  then show ?thesis by auto
qed

lemma match_sep_at_head:
  assumes st: "startswith (upper s) (CHR '' '' # kw @ '' '')"
    and kw: "kw \<noteq> []" "\<not> isspace (hd kw)"
  shows "match_sep kw s \<noteq> None"
proof -
  from st have tk: "take (Suc (length kw + 1)) (map upper_char s) = CHR '' '' # kw @ '' ''"
    by (simp add: startswith_def upper_def)
  then obtain c0 s' where s: "s = c0 # s'"
    by (cases s) auto
  from tk s have c0: "upper_char c0 = CHR '' ''"
    and tk': "take (length kw + 1) (map upper_char s') = kw @ '' ''"
    by auto
  from c0 have c0s: "c0 = CHR '' ''" by (rule upper_char_space)
  from tk' have len: "length kw + 1 \<le> length s'"
    by (metis length_append length_map length_take min.absorb_iff2 min.cobounded1
        One_nat_def list.size(3,4) add.right_neutral add_Suc_right)
  from tk' have tkw: "take (length kw) (map upper_char s') = kw"
    by (metis append_eq_conv_conj take_take min.absorb1 le_add1 length_take length_map len
        min.absorb_iff2 add_leE)
  from len kw obtain c1 s'' where s': "s' = c1 # s''" by (cases s') auto
  from tkw kw s' have "upper_char c1 = hd kw" by (cases kw) auto
  with kw(2) have nsp: "\<not> isspace c1" using isspace_upper_char by force
  have s1: "dropWhile isspace s = s'" using s s' c0s nsp isspace_space by simp
  have ne: "s' \<noteq> s" using s by simp
  define s2 where "s2 = drop (length kw) s'"
  have s2ne: "s2 \<noteq> []" using len by (simp add: s2_def)
  have "map upper_char s2 = drop (length kw) (map upper_char s')"
    by (simp add: s2_def drop_map)
  moreover have "take 1 (drop (length kw) (map upper_char s')) = '' ''"
    using tk' by (metis append_eq_conv_conj take_add tkw)
  ultimately have "take 1 (map upper_char s2) = '' ''" by simp
  with s2ne have "upper_char (hd s2) = CHR '' ''" by (cases s2) auto
  then have "isspace (hd s2)" using upper_char_space isspace_space by force
  with s2ne have "dropWhile isspace s2 \<noteq> s2" by (rule dropWhile_head_changes)
  then show ?thesis
    using s1 ne tkw by (simp add: match_sep_def Let_def s2_def upper_def take_map)
qed


lemma re_split_nonempty: "re_split kw s \<noteq> []"
  by (induction kw s rule: re_split.induct) (auto split: option.splits list.splits)

lemma re_split_le: "p \<in> set (re_split kw s) \<Longrightarrow> length p \<le> length s"
proof (induction kw s arbitrary: p rule: re_split.induct)
  case (1 kw)
  then show ?case by simp
next
  case (2 kw c cs)
  show ?case
  proof (cases "match_sep kw (c # cs)")
    case None
    show ?thesis
    proof (cases "re_split kw cs")
      case Nil
      then show ?thesis using re_split_nonempty by blast
    next
      case (Cons q qs)
      then have "p = c # q \<or> p \<in> set qs" using 2(3) None by simp
      moreover have "length q \<le> length cs" using 2(1)[OF None, of q] Cons by simp
      moreover have "p \<in> set qs \<Longrightarrow> length p \<le> length cs"
        using 2(1)[OF None, of p] Cons by simp
      ultimately show ?thesis by auto
    qed
  next
    case (Some rest)
    then have "p = [] \<or> p \<in> set (re_split kw rest)" using 2(3) by simp
    moreover have "p \<in> set (re_split kw rest) \<Longrightarrow> length p \<le> length rest"
      using 2(2)[OF Some] by simp
    moreover have "length rest < length (c # cs)" using Some by (rule match_sep_shorter)
    ultimately show ?thesis by auto
  qed
qed

lemma re_split_shorter:
  assumes kw: "kw \<noteq> []" "\<not> isspace (hd kw)"
  shows "contains (CHR '' '' # kw @ '' '') (upper s) \<Longrightarrow> p \<in> set (re_split kw s)
    \<Longrightarrow> length p < length s"
proof (induction s arbitrary: p)
  case Nil
  then show ?case by (simp add: upper_def)
next
  case (Cons c cs)
  show ?case
  proof (cases "match_sep kw (c # cs)")
    case (Some rest)
    then have "p = [] \<or> p \<in> set (re_split kw rest)" using Cons.prems(2) by simp
    moreover have "p \<in> set (re_split kw rest) \<Longrightarrow> length p \<le> length rest"
      by (rule re_split_le)
    moreover have "length rest < length (c # cs)" using Some by (rule match_sep_shorter)
    ultimately show ?thesis by auto
  next
    case None
    then have "\<not> startswith (upper (c # cs)) (CHR '' '' # kw @ '' '')"
      using match_sep_at_head[OF _ kw] by blast
    then have cont: "contains (CHR '' '' # kw @ '' '') (upper cs)"
      using Cons.prems(1) by (simp add: upper_def)
    show ?thesis
    proof (cases "re_split kw cs")
      case Nil
      then show ?thesis using re_split_nonempty by blast
    next
      case (Cons q qs)
      then have "p = c # q \<or> p \<in> set qs" using Cons.prems(2) None by simp
      moreover have "length q < length cs" using Cons.IH[OF cont, of q] Cons by simp
      moreover have "p \<in> set qs \<Longrightarrow> length p < length cs"
        using Cons.IH[OF cont, of p] Cons by simp
      ultimately show ?thesis by auto
    qed
  qed
qed

lemma length_strip_le: "length (strip s) \<le> length s"
proof -
  have "length (strip s) \<le> length (dropWhile isspace s)"
    unfolding strip_def strip_with_def
    using length_dropWhile_le[of isspace "rev (dropWhile isspace s)"] by simp
  also have "\<dots> \<le> length s" by (rule length_dropWhile_le)
  finally show ?thesis .
qed

text \<open>
  \<open>evaluate_where\<close>: \<^verbatim>\<open>" AND "\<close> is looked for first, then \<^verbatim>\<open>" OR "\<close>, then the
  condition is one comparison.
\<close>

function evaluate_where :: "pylib \<Rightarrow> row \<Rightarrow> string \<Rightarrow> error + bool" where
  "evaluate_where L r condition0 =
     (let condition = strip condition0
      in if contains '' AND '' (upper condition)
         then all_results (evaluate_where L r) (re_split ''AND'' condition)
         else if contains '' OR '' (upper condition)
         then any_results (evaluate_where L r) (re_split ''OR'' condition)
         else eval_comparison L r condition operators)"
  by pat_completeness auto
termination
proof (relation "measure (\<lambda>(L, r, c). length c)")
  show "wf (measure (\<lambda>(L, r, c). length c))" by simp
next
  fix L :: pylib and r :: row and condition0 condition p
  assume "condition = strip condition0" "contains '' AND '' (upper condition)"
    "p \<in> set (re_split ''AND'' condition)"
  then have "length p < length (strip condition0)"
    using re_split_shorter[of "''AND''" "strip condition0" p] by (simp add: isspace_def whitespace_def)
  then show "((L, r, p), (L, r, condition0)) \<in> measure (\<lambda>(L, r, c). length c)"
    using length_strip_le[of condition0] by simp
next
  fix L :: pylib and r :: row and condition0 condition p
  assume "condition = strip condition0" "contains '' OR '' (upper condition)"
    "p \<in> set (re_split ''OR'' condition)"
  then have "length p < length (strip condition0)"
    using re_split_shorter[of "''OR''" "strip condition0" p] by (simp add: isspace_def whitespace_def)
  then show "((L, r, p), (L, r, condition0)) \<in> measure (\<lambda>(L, r, c). length c)"
    using length_strip_le[of condition0] by simp
qed

declare evaluate_where.simps [simp del]

text \<open>\<^verbatim>\<open>not where_clause or self._evaluate_where(row, where_clause)\<close>.\<close>

definition row_matches :: "pylib \<Rightarrow> string option \<Rightarrow> row \<Rightarrow> error + bool" where
  "row_matches L where_clause r =
     (case where_clause of
        None \<Rightarrow> Inr True
      | Some w \<Rightarrow> if w = [] then Inr True else evaluate_where L r w)"

section \<open>UPDATE\<close>

text \<open>The loop over the comma-separated assignments of the SET clause.\<close>

fun parse_set :: "pylib \<Rightarrow> string list \<Rightarrow> row \<Rightarrow> error + row" where
  "parse_set L [] updates = Inr updates"
| "parse_set L (assignment # rest) updates =
     (case split_once ''='' assignment of
        None \<Rightarrow> Inl (ValueError ''not enough values to unpack (expected 2, got 1)'')
      | Some (col, val) \<Rightarrow>
          (case parse_literal L val of
             Inl e \<Rightarrow> Inl e
           | Inr v \<Rightarrow> parse_set L rest (AList.update (strip col) v updates)))"

text \<open>
  The validation of the assignments for the row at position \<open>i\<close>: every assigned column
  must be declared, and a non-null value for a unique column must not be held by another
  row (of the rows as they are now, earlier rows of the sweep already updated).
\<close>

fun check_updates :: "column list \<Rightarrow> row list \<Rightarrow> nat \<Rightarrow> row \<Rightarrow> error option" where
  "check_updates cols rs i [] = None"
| "check_updates cols rs i ((col, v) # rest) =
     (case find (\<lambda>c. col_name c = col) cols of
        None \<Rightarrow> Some (ValueError (''Column '' @ quoted col @ '' does not exist''))
      | Some col_obj \<Rightarrow>
          if is_unique col_obj \<and> v \<noteq> VNone
             \<and> list_ex (\<lambda>(j, other_row). j \<noteq> i \<and> py_eq (row_get other_row col) v)
                  (enumerate 0 rs)
          then Some (ValueError (''Duplicate value for unique column '' @ quoted col))
          else check_updates cols rs i rest)"

text \<open>\<^verbatim>\<open>row.update(updates)\<close>.\<close>

definition row_update :: "row \<Rightarrow> row \<Rightarrow> row" where
  "row_update r updates = fold (\<lambda>(k, v) acc. AList.update k v acc) updates r"

text \<open>
  The sweep over the row positions. It returns the rows as the sweep left them, also when
  it raises: the rows before the failing one have been updated in place.
\<close>

fun update_sweep :: "pylib \<Rightarrow> column list \<Rightarrow> row \<Rightarrow> string option \<Rightarrow> nat list \<Rightarrow> row list
    \<Rightarrow> nat \<Rightarrow> row list \<times> (error + nat)" where
  "update_sweep L cols updates where_clause [] rs updated_count = (rs, Inr updated_count)"
| "update_sweep L cols updates where_clause (i # rest) rs updated_count =
     (case row_matches L where_clause (rs ! i) of
        Inl e \<Rightarrow> (rs, Inl e)
      | Inr hit \<Rightarrow>
          if hit
          then (case check_updates cols rs i updates of
                  Some e \<Rightarrow> (rs, Inl e)
                | None \<Rightarrow> update_sweep L cols updates where_clause rest
                            (rs[i := row_update (rs ! i) updates]) (Suc updated_count))
          else update_sweep L cols updates where_clause rest rs updated_count)"

definition rebuild_indexes :: "table \<Rightarrow> table" where
  "rebuild_indexes table =
     table\<lparr>indexes := map (\<lambda>(n, idx). (n, rebuild_index table idx)) (indexes table)\<rparr>"

definition update_groups :: "pylib \<Rightarrow> engine \<Rightarrow> string \<times> string \<times> string option
    \<Rightarrow> engine \<times> (error + row list)" where
  "update_groups L st g =
     (case g of (tname, set_clause, where_clause) \<Rightarrow>
      (case tables st tname of
         None \<Rightarrow> (st, Inl (ValueError (''Table '' @ quoted tname @ '' does not exist'')))
       | Some table \<Rightarrow>
          (case parse_set L (split_char (CHR '','') (strip set_clause)) [] of
             Inl e \<Rightarrow> (st, Inl e)
           | Inr updates \<Rightarrow>
              (case update_sweep L (columns table) updates where_clause
                      [0..<length (rows table)] (rows table) 0 of
                 (rs, Inl e) \<Rightarrow> (st\<lparr>tables := (tables st)(tname \<mapsto> table\<lparr>rows := rs\<rparr>)\<rparr>, Inl e)
               | (rs, Inr updated_count) \<Rightarrow>
                  (let table1 = table\<lparr>rows := rs\<rparr>;
                       st1 = (if updated_count > 0
                              then save_table
                                     (st\<lparr>tables := (tables st)(tname \<mapsto> rebuild_indexes table1)\<rparr>)
                                     tname
                              else st\<lparr>tables := (tables st)(tname \<mapsto> table1)\<rparr>)
                   in (st1, Inr [[(''status'',
                                   VText (str_nat updated_count @ '' row(s) updated''))]]))))))"

definition execute_update :: "pylib \<Rightarrow> engine \<Rightarrow> string \<Rightarrow> engine \<times> (error + row list)" where
  "execute_update L st sql =
     (case re_update L sql of
        None \<Rightarrow> (st, Inl (ValueError ''Invalid UPDATE syntax''))
      | Some g \<Rightarrow> update_groups L st g)"

section \<open>DELETE\<close>

text \<open>The positions of the matching rows, in ascending order.\<close>

fun rows_to_delete :: "pylib \<Rightarrow> string option \<Rightarrow> nat \<Rightarrow> row list \<Rightarrow> error + nat list" where
  "rows_to_delete L where_clause i [] = Inr []"
| "rows_to_delete L where_clause i (r # rs) =
     (case row_matches L where_clause r of
        Inl e \<Rightarrow> Inl e
      | Inr hit \<Rightarrow>
         (case rows_to_delete L where_clause (Suc i) rs of
            Inl e \<Rightarrow> Inl e
          | Inr ps \<Rightarrow> Inr (if hit then i # ps else ps)))"

text \<open>\<^verbatim>\<open>rows.pop(i)\<close> at a position within range.\<close>

definition pop_at :: "nat \<Rightarrow> 'a list \<Rightarrow> 'a list" where
  "pop_at i xs = take i xs @ drop (Suc i) xs"

definition delete_groups :: "pylib \<Rightarrow> engine \<Rightarrow> string \<times> string option
    \<Rightarrow> engine \<times> (error + row list)" where
  "delete_groups L st g =
     (case g of (tname, where_clause) \<Rightarrow>
      (case tables st tname of
         None \<Rightarrow> (st, Inl (ValueError (''Table '' @ quoted tname @ '' does not exist'')))
       | Some table \<Rightarrow>
          (case rows_to_delete L where_clause 0 (rows table) of
             Inl e \<Rightarrow> (st, Inl e)
           | Inr ps \<Rightarrow>
              (let table1 = table\<lparr>rows := fold pop_at (rev (sort ps)) (rows table)\<rparr>;
                   deleted_count = length ps;
                   st1 = (if deleted_count > 0
                          then save_table
                                 (st\<lparr>tables := (tables st)(tname \<mapsto> rebuild_indexes table1)\<rparr>)
                                 tname
                          else st\<lparr>tables := (tables st)(tname \<mapsto> table1)\<rparr>)
               in (st1, Inr [[(''status'',
                               VText (str_nat deleted_count @ '' row(s) deleted''))]])))))"

definition execute_delete :: "pylib \<Rightarrow> engine \<Rightarrow> string \<Rightarrow> engine \<times> (error + row list)" where
  "execute_delete L st sql =
     (case re_delete L sql of
        None \<Rightarrow> (st, Inl (ValueError ''Invalid DELETE syntax''))
      | Some g \<Rightarrow> delete_groups L st g)"


section \<open>SELECT\<close>

text \<open>
  The FROM clause: split at JOIN when \<^verbatim>\<open>" JOIN "\<close> occurs, each part giving a table name
  and, after \<^verbatim>\<open>" ON "\<close>, a condition that is collected in \<open>join_info\<close>.
\<close>

fun parse_join_parts :: "string list \<Rightarrow> error + (string list \<times> string list)" where
  "parse_join_parts [] = Inr ([], [])"
| "parse_join_parts (part # parts) =
     (if contains '' ON '' (upper part)
      then (case split_once '' ON '' part of
              None \<Rightarrow> Inl (ValueError ''not enough values to unpack (expected 2, got 1)'')
            | Some (table_part, condition) \<Rightarrow>
               (case parse_join_parts parts of
                  Inl e \<Rightarrow> Inl e
                | Inr (ts, join_info) \<Rightarrow> Inr (strip table_part # ts, strip condition # join_info)))
      else (case parse_join_parts parts of
              Inl e \<Rightarrow> Inl e
            | Inr (ts, join_info) \<Rightarrow> Inr (strip part # ts, join_info)))"

definition parse_from :: "string \<Rightarrow> error + (string list \<times> string list)" where
  "parse_from from_clause =
     (if contains '' JOIN '' (upper from_clause)
      then parse_join_parts (re_split ''JOIN'' from_clause)
      else Inr ([from_clause], []))"

fun get_table_objs :: "engine \<Rightarrow> string list \<Rightarrow> error + table list" where
  "get_table_objs st [] = Inr []"
| "get_table_objs st (tname # rest) =
     (case tables st tname of
        None \<Rightarrow> Inl (ValueError (''Table '' @ quoted tname @ '' does not exist''))
      | Some table \<Rightarrow>
         (case get_table_objs st rest of
            Inl e \<Rightarrow> Inl e
          | Inr objs \<Rightarrow> Inr (table # objs)))"

text \<open>The requested columns.\<close>

definition parse_columns :: "string \<Rightarrow> table \<Rightarrow> string list" where
  "parse_columns select_clause first_table =
     (if select_clause = ''*'' then map col_name (columns first_table)
      else map strip (split_char (CHR '','') select_clause))"

text \<open>
  \<^verbatim>\<open>{**row1, **{f"{tables[1]}.{k}": v for k, v in row2.items()}}\<close> and the nested loop
  over the rows of the first two tables.
\<close>

definition joined_row :: "string \<Rightarrow> row \<Rightarrow> row \<Rightarrow> row" where
  "joined_row tname row1 row2 =
     fold (\<lambda>(k, v) acc. AList.update k v acc)
       (map (\<lambda>(k, v). (tname @ ''.'' @ k, v)) row2) row1"

definition join_rows :: "string \<Rightarrow> row list \<Rightarrow> row list \<Rightarrow> row list" where
  "join_rows tname rows1 rows2 =
     concat (map (\<lambda>row1. map (\<lambda>row2. joined_row tname row1 row2) rows2) rows1)"

text \<open>The WHERE filter: the first row whose evaluation raises ends the statement.\<close>

fun filter_rows :: "pylib \<Rightarrow> string \<Rightarrow> row list \<Rightarrow> error + row list" where
  "filter_rows L where_clause [] = Inr []"
| "filter_rows L where_clause (r # rs) =
     (case evaluate_where L r where_clause of
        Inl e \<Rightarrow> Inl e
      | Inr hit \<Rightarrow>
         (case filter_rows L where_clause rs of
            Inl e \<Rightarrow> Inl e
          | Inr kept \<Rightarrow> Inr (if hit then r # kept else kept)))"

text \<open>The projection of one result row onto the requested columns.\<close>

definition project_row :: "string list \<Rightarrow> row \<Rightarrow> row" where
  "project_row cols r =
     fold (\<lambda>col final_row.
             case map_of r col of
               Some v \<Rightarrow> AList.update col v final_row
             | None \<Rightarrow> if CHR ''.'' \<in> set col
                       then AList.update col (row_get_default r col VNone) final_row
                       else final_row)
          cols []"

text \<open>The materialized rows: a copy of the single table's rows, or the nested-loop join.\<close>

definition materialize :: "string list \<Rightarrow> table list \<Rightarrow> error + row list" where
  "materialize tnames table_objs =
     (case table_objs of
        [] \<Rightarrow> Inl IndexError
      | [t0] \<Rightarrow> Inr (rows t0)
      | t0 # t1 # others \<Rightarrow> Inr (join_rows (tnames ! 1) (rows t0) (rows t1)))"

definition apply_where :: "pylib \<Rightarrow> string option \<Rightarrow> row list \<Rightarrow> error + row list" where
  "apply_where L where_clause results =
     (case where_clause of
        None \<Rightarrow> Inr results
      | Some w \<Rightarrow> if w = [] then Inr results else filter_rows L w results)"

text \<open>ORDER BY: one sort by the tuple of the named columns, a missing key counting as \<^verbatim>\<open>""\<close>.\<close>

definition apply_order :: "pylib \<Rightarrow> string option \<Rightarrow> row list \<Rightarrow> error + row list" where
  "apply_order L order_clause results =
     (case order_clause of
        None \<Rightarrow> Inr results
      | Some oc \<Rightarrow>
          if oc = [] then Inr results
          else list_sort L
                 (map (\<lambda>x. (map (\<lambda>col. row_get_default x col (VText []))
                                (map strip (split_char (CHR '','') oc)),
                            x))
                    results))"

text \<open>
  \<open>execute_select\<close> after its pattern has matched: the groups are the select list, the FROM
  clause, the optional WHERE text and the optional ORDER BY text.
\<close>

definition select_groups :: "pylib \<Rightarrow> engine \<Rightarrow> string \<times> string \<times> string option \<times> string option
    \<Rightarrow> error + row list" where
  "select_groups L st g =
     (case g of (select0, from0, where_clause, order_clause) \<Rightarrow>
      (case parse_from (strip from0) of
         Inl e \<Rightarrow> Inl e
       | Inr (tnames, join_info) \<Rightarrow>
          (case get_table_objs st tnames of
             Inl e \<Rightarrow> Inl e
           | Inr table_objs \<Rightarrow>
              (case table_objs of
                 [] \<Rightarrow> Inl IndexError
               | t0 # later \<Rightarrow>
                  (let cols = parse_columns (strip select0) t0
                   in case materialize tnames table_objs of
                        Inl e \<Rightarrow> Inl e
                      | Inr results \<Rightarrow>
                         (case apply_where L where_clause results of
                            Inl e \<Rightarrow> Inl e
                          | Inr filtered \<Rightarrow>
                             (case apply_order L order_clause filtered of
                                Inl e \<Rightarrow> Inl e
                              | Inr sorted_rows \<Rightarrow>
                                  Inr (map (project_row cols) sorted_rows))))))))"

definition execute_select :: "pylib \<Rightarrow> engine \<Rightarrow> string \<Rightarrow> engine \<times> (error + row list)" where
  "execute_select L st sql =
     (case re_select L sql of
        None \<Rightarrow> (st, Inl (ValueError ''Invalid SELECT syntax''))
      | Some g \<Rightarrow> (st, select_groups L st g))"

section \<open>CREATE TABLE, DROP TABLE, CREATE INDEX\<close>

definition data_type_of :: "string \<Rightarrow> DataType option" where
  "data_type_of s =
     map_of [(''INTEGER'', INTEGER), (''TEXT'', TEXT), (''REAL'', REAL),
             (''BOOLEAN'', BOOLEAN), (''DATE'', DATE)] s"

text \<open>One column definition, already stripped and not empty.\<close>

definition parse_column_def :: "string \<Rightarrow> error + column" where
  "parse_column_def col_def =
     (case split_ws col_def of
        [] \<Rightarrow> Inl IndexError
      | [cname] \<Rightarrow> Inl IndexError
      | cname # tname # extra \<Rightarrow>
         (case data_type_of (upper tname) of
            None \<Rightarrow> Inl (ValueError (quoted (upper tname) @ '' is not a valid DataType''))
          | Some dt \<Rightarrow>
             (let primary = contains ''PRIMARY KEY'' (upper col_def)
              in Inr \<lparr>col_name = cname, data_type = dt, is_primary = primary,
                      is_unique = (contains ''UNIQUE'' (upper col_def) \<or> primary),
                      is_nullable = (\<not> contains ''NOT NULL'' (upper col_def))\<rparr>)))"

fun parse_column_defs :: "string list \<Rightarrow> error + column list" where
  "parse_column_defs [] = Inr []"
| "parse_column_defs (d # ds) =
     (if strip d = [] then parse_column_defs ds
      else (case parse_column_def (strip d) of
              Inl e \<Rightarrow> Inl e
            | Inr col \<Rightarrow>
               (case parse_column_defs ds of
                  Inl e \<Rightarrow> Inl e
                | Inr cols \<Rightarrow> Inr (col # cols))))"

text \<open>
  The construction of a table: the primary key column is the first primary one, and the
  default indexes are one on the primary key and one on every other unique column.
\<close>

definition new_index :: "string list \<Rightarrow> index" where
  "new_index cols = \<lparr>column_names = cols, entries = []\<rparr>"

definition create_default_indexes :: "column list \<Rightarrow> column option \<Rightarrow> (string \<times> index) list" where
  "create_default_indexes cols pk =
     fold (\<lambda>col idxs.
             if is_unique col \<and> Some col \<noteq> pk
             then AList.update (''__unique_'' @ col_name col) (new_index [col_name col]) idxs
             else idxs)
          cols
          (case pk of
             None \<Rightarrow> []
           | Some c \<Rightarrow> [(''__primary'', new_index [col_name c])])"

definition new_table :: "string \<Rightarrow> column list \<Rightarrow> table" where
  "new_table tname cols =
     (let pk = find is_primary cols
      in \<lparr>table_name = tname, columns = cols, rows = [],
          indexes = create_default_indexes cols pk,
          next_row_id = 1, primary_key_column = pk\<rparr>)"

definition create_table_groups :: "engine \<Rightarrow> string \<times> string \<Rightarrow> engine \<times> (error + row list)" where
  "create_table_groups st g =
     (case g of (tname, columns_sql) \<Rightarrow>
      (case tables st tname of
         Some existing \<Rightarrow> (st, Inl (ValueError (''Table '' @ quoted tname @ '' already exists'')))
       | None \<Rightarrow>
          (case parse_column_defs (split_char (CHR '','') (strip columns_sql)) of
             Inl e \<Rightarrow> (st, Inl e)
           | Inr cols \<Rightarrow>
              (save_table (st\<lparr>tables := (tables st)(tname \<mapsto> new_table tname cols)\<rparr>) tname,
               Inr [[(''status'', VText (''Table '' @ quoted tname @ '' created successfully'')),
                     (''columns'', VInt (int (length cols)))]]))))"

definition execute_create_table :: "pylib \<Rightarrow> engine \<Rightarrow> string \<Rightarrow> engine \<times> (error + row list)" where
  "execute_create_table L st sql =
     (case re_create_table L sql of
        None \<Rightarrow> (st, Inl (ValueError ''Invalid CREATE TABLE syntax''))
      | Some g \<Rightarrow> create_table_groups st g)"

definition execute_drop_table :: "pylib \<Rightarrow> engine \<Rightarrow> string \<Rightarrow> engine \<times> (error + row list)" where
  "execute_drop_table L st sql =
     (case re_drop_table L sql of
        None \<Rightarrow> (st, Inl (ValueError ''Invalid DROP TABLE syntax''))
      | Some tname \<Rightarrow>
         (case tables st tname of
            None \<Rightarrow> (st, Inl (ValueError (''Table '' @ quoted tname @ '' does not exist'')))
          | Some table \<Rightarrow>
             (st\<lparr>tables := (tables st)(tname := None), disk := (disk st)(tname := None)\<rparr>,
              Inr [[(''status'', VText (''Table '' @ quoted tname @ '' dropped successfully''))]])))"

text \<open>
  The table's own \<open>rebuild_index\<close>, used by \<open>add_index\<close>: it reads \<^verbatim>\<open>row[col]\<close> for
  every key column, so a row that lacks one raises \<^verbatim>\<open>KeyError\<close> and leaves the entries
  built so far.
\<close>

fun strict_key :: "string list \<Rightarrow> row \<Rightarrow> error + pyval list" where
  "strict_key [] r = Inr []"
| "strict_key (col # cols) r =
     (case map_of r col of
        None \<Rightarrow> Inl (KeyError col)
      | Some v \<Rightarrow> (case strict_key cols r of Inl e \<Rightarrow> Inl e | Inr vs \<Rightarrow> Inr (v # vs)))"

fun strict_index_rows_from :: "string list \<Rightarrow> nat \<Rightarrow> row list \<Rightarrow> (pyval list \<times> nat list) list
    \<Rightarrow> (pyval list \<times> nat list) list \<times> error option" where
  "strict_index_rows_from cols i [] es = (es, None)"
| "strict_index_rows_from cols i (r # rs) es =
     (case strict_key cols r of
        Inl e \<Rightarrow> (es, Some e)
      | Inr key \<Rightarrow> strict_index_rows_from cols (Suc i) rs (entries_append key i es))"

definition add_index :: "table \<Rightarrow> string \<Rightarrow> string list \<Rightarrow> table \<times> error option" where
  "add_index table name cols =
     (case strict_index_rows_from cols 0 (rows table) [] of
        (es, err) \<Rightarrow>
          (table\<lparr>indexes := AList.update name \<lparr>column_names = cols, entries = es\<rparr> (indexes table)\<rparr>,
           err))"

definition create_index_groups :: "engine \<Rightarrow> string \<times> string \<times> string
    \<Rightarrow> engine \<times> (error + row list)" where
  "create_index_groups st g =
     (case g of (index_name, tname, columns_str) \<Rightarrow>
      (case tables st tname of
         None \<Rightarrow> (st, Inl (ValueError (''Table '' @ quoted tname @ '' does not exist'')))
       | Some table \<Rightarrow>
          (let cnames = map strip (split_char (CHR '','') columns_str)
           in case find (\<lambda>cn. \<not> list_ex (\<lambda>col. col_name col = cn) (columns table)) cnames of
                Some cn \<Rightarrow> (st, Inl (ValueError (''Column '' @ quoted cn
                                       @ '' does not exist in table '' @ quoted tname)))
              | None \<Rightarrow>
                 (case add_index table index_name cnames of
                    (table', Some e) \<Rightarrow> (st\<lparr>tables := (tables st)(tname \<mapsto> table')\<rparr>, Inl e)
                  | (table', None) \<Rightarrow>
                     (save_table (st\<lparr>tables := (tables st)(tname \<mapsto> table')\<rparr>) tname,
                      Inr [[(''status'', VText (''Index '' @ quoted index_name
                                                @ '' created on '' @ quoted tname))]])))))"

definition execute_create_index :: "pylib \<Rightarrow> engine \<Rightarrow> string \<Rightarrow> engine \<times> (error + row list)" where
  "execute_create_index L st sql =
     (case re_create_index L sql of
        None \<Rightarrow> (st, Inl (ValueError ''Invalid CREATE INDEX syntax''))
      | Some g \<Rightarrow> create_index_groups st g)"

section \<open>Transactions and the entry point\<close>

definition begin_transaction :: "engine \<Rightarrow> engine" where
  "begin_transaction st = st\<lparr>in_transaction := True, transaction_log := []\<rparr>"

definition commit_transaction :: "engine \<Rightarrow> engine \<times> string list" where
  "commit_transaction st =
     (st\<lparr>in_transaction := False, transaction_log := []\<rparr>, transaction_log st)"

definition rollback_transaction :: "engine \<Rightarrow> engine" where
  "rollback_transaction st = load_tables (st\<lparr>in_transaction := False, transaction_log := []\<rparr>)"

text \<open>\<^verbatim>\<open>sql.strip().replace("\n", " ").replace("\t", " ")\<close>.\<close>

definition normalize_sql :: "string \<Rightarrow> string" where
  "normalize_sql sql =
     map (\<lambda>c. if c = CHR 0x09 then CHR '' '' else c)
       (map (\<lambda>c. if c = CHR 0x0A then CHR '' '' else c) (strip sql))"

text \<open>The dispatch on the leading keyword, in the order of the source.\<close>

definition dispatch :: "pylib \<Rightarrow> engine \<Rightarrow> string \<Rightarrow> engine \<times> (error + row list)" where
  "dispatch L st sql =
     (let sql_upper = upper sql
      in if startswith sql_upper ''CREATE TABLE'' then execute_create_table L st sql
         else if startswith sql_upper ''INSERT'' then execute_insert L st sql
         else if startswith sql_upper ''SELECT'' then execute_select L st sql
         else if startswith sql_upper ''UPDATE'' then execute_update L st sql
         else if startswith sql_upper ''DELETE'' then execute_delete L st sql
         else if startswith sql_upper ''DROP TABLE'' then execute_drop_table L st sql
         else if startswith sql_upper ''CREATE INDEX'' then execute_create_index L st sql
         else if startswith sql_upper ''BEGIN TRANSACTION'' \<or> startswith sql_upper ''BEGIN''
         then (begin_transaction st, Inr [[(''status'', VText ''Transaction started'')]])
         else if startswith sql_upper ''COMMIT''
         then (case commit_transaction st of
                 (st', result) \<Rightarrow>
                   (st', Inr [[(''status'', VText ''Transaction committed''),
                               (''operations'', VInt (int (length result)))]]))
         else if startswith sql_upper ''ROLLBACK''
         then (rollback_transaction st, Inr [[(''status'', VText ''Transaction rolled back'')]])
         else (st, Inl (ValueError (''Unsupported SQL command: '' @ sql))))"

definition execute_sql :: "pylib \<Rightarrow> engine \<Rightarrow> string \<Rightarrow> engine \<times> (error + row list)" where
  "execute_sql L st sql0 =
     (let sql = normalize_sql sql0;
          st1 = (if in_transaction st
                 then st\<lparr>transaction_log := transaction_log st @ [sql]\<rparr>
                 else st)
      in dispatch L st1 sql)"


section \<open>The specification's reading of the literal tests\<close>


section \<open>A sample database\<close>

text \<open>
  The tables \<^verbatim>\<open>t (id INTEGER PRIMARY KEY, name TEXT NOT NULL)\<close> with two rows and
  \<^verbatim>\<open>items (name TEXT NOT NULL, qty INTEGER)\<close> with one, built by the engine's own
  constructors, in memory and on disk. The examples below run on it.
\<close>

definition id_col :: column where
  "id_col = \<lparr>col_name = ''id'', data_type = INTEGER, is_primary = True, is_unique = True,
             is_nullable = True\<rparr>"

definition name_col :: column where
  "name_col = \<lparr>col_name = ''name'', data_type = TEXT, is_primary = False, is_unique = False,
               is_nullable = False\<rparr>"

definition qty_col :: column where
  "qty_col = \<lparr>col_name = ''qty'', data_type = INTEGER, is_primary = False, is_unique = False,
              is_nullable = True\<rparr>"

definition demo_t :: table where
  "demo_t = add_row (add_row (new_table ''t'' [id_col, name_col])
                       [(''id'', VInt 1), (''name'', VText ''a'')])
              [(''id'', VInt 2), (''name'', VText ''b'')]"

definition demo_items :: table where
  "demo_items = add_row (new_table ''items'' [name_col, qty_col])
                  [(''name'', VText ''x''), (''qty'', VInt 3)]"

definition demo_db :: engine where
  "demo_db = \<lparr>tables = [''t'' \<mapsto> demo_t, ''items'' \<mapsto> demo_items],
              transaction_log = [], in_transaction = False,
              disk = [''t'' \<mapsto> demo_t, ''items'' \<mapsto> demo_items]\<rparr>"

section \<open>Running statements\<close>

text \<open>The statements that reach the BEGIN, COMMIT or ROLLBACK branch of the dispatch.\<close>

definition transaction_keyword :: "string \<Rightarrow> bool" where
  "transaction_keyword sql =
     (startswith (upper sql) ''BEGIN'' \<or> startswith (upper sql) ''COMMIT''
      \<or> startswith (upper sql) ''ROLLBACK'')"

text \<open>Two states with the same transaction log and flag.\<close>

definition same_transaction :: "engine \<Rightarrow> engine \<Rightarrow> bool" where
  "same_transaction st st' =
     (transaction_log st' = transaction_log st \<and> in_transaction st' = in_transaction st)"

text \<open>
  The callers (the shell's loop, the HTTP handler) execute one statement after another and
  catch every error, so the engine carries on from the state the failed statement left.
\<close>

fun run :: "pylib \<Rightarrow> engine \<Rightarrow> string list \<Rightarrow> engine \<times> (error + row list) list" where
  "run L st [] = (st, [])"
| "run L st (sql # rest) =
     (case execute_sql L st sql of
        (st1, res) \<Rightarrow> (case run L st1 rest of (st2, ress) \<Rightarrow> (st2, res # ress)))"

text \<open>
  The library's answers on the statements of the examples: the groups that the INSERT and
  UPDATE patterns give on the two statements listed, \<^verbatim>\<open>int\<close> on a text of at most 4300
  of the digits 0 to 9 (the interpreter's default limit on the length of an integer's
  text), which is its decimal value, and \<^verbatim>\<open>float\<close> on the text 5.0, which is the
  double 5. The examples run no other statement through a pattern, convert no other text
  to a number, use neither LIKE nor ORDER BY and print no float; on any other text the
  sample conversions answer with a \<^verbatim>\<open>ValueError\<close> of empty message, which no example
  reaches.
\<close>

definition digit_val :: "char \<Rightarrow> int" where
  "digit_val c =
     (case map_of (zip ''0123456789'' [0, 1, 2, 3, 4, 5, 6, 7, 8, 9]) c of
        Some d \<Rightarrow> d
      | None \<Rightarrow> 0)"

definition int_of_digits :: "string \<Rightarrow> int" where
  "int_of_digits v = foldl (\<lambda>a c. 10 * a + digit_val c) 0 v"

definition demo_int :: "string \<Rightarrow> error + int" where
  "demo_int v =
     (if v \<noteq> [] \<and> list_all (\<lambda>c. c \<in> set ''0123456789'') v \<and> length v \<le> 4300
      then Inr (int_of_digits v)
      else Inl (ValueError []))"

definition demo_float :: "string \<Rightarrow> error + pyfloat" where
  "demo_float v = (if v = ''5.0'' then Inr (Finite 5) else Inl (ValueError []))"

definition demo_lib :: pylib where
  "demo_lib =
     \<lparr>re_create_table = (\<lambda>sql. None),
      re_insert = map_of [(''INSERT INTO t VALUES (3, '' @ quoted ''c'' @ '')'',
                           (''t'', None, ''3, '' @ quoted ''c''))],
      re_select = (\<lambda>sql. None),
      re_update = map_of [(''UPDATE t SET id = 5'', (''t'', ''id = 5'', None))],
      re_delete = (\<lambda>sql. None),
      re_drop_table = (\<lambda>sql. None),
      re_create_index = (\<lambda>sql. None),
      re_match_like = (\<lambda>pattern s. Inl RegexError),
      py_int = demo_int,
      py_float = demo_float,
      str_float = (\<lambda>x. []),
      list_sort = (\<lambda>keyed. Inl TypeError)\<rparr>"

text \<open>Memory and disk agree: every table of the catalog is its own persisted snapshot.\<close>

definition synced :: "engine \<Rightarrow> bool" where
  "synced st = (tables st = disk st)"

section \<open>Projection, step by step\<close>

text \<open>One step of the projection loop, and what a requested column yields.\<close>

definition project_step :: "row \<Rightarrow> string \<Rightarrow> row \<Rightarrow> row" where
  "project_step r col final_row =
     (case map_of r col of
        Some v \<Rightarrow> AList.update col v final_row
      | None \<Rightarrow> if CHR ''.'' \<in> set col
                then AList.update col (row_get_default r col VNone) final_row
                else final_row)"

definition projected :: "row \<Rightarrow> string \<Rightarrow> pyval option" where
  "projected r c =
     (case map_of r c of
        Some v \<Rightarrow> Some v
      | None \<Rightarrow> if CHR ''.'' \<in> set c then Some VNone else None)"

section \<open>Single comparisons and lazy connectives\<close>

text \<open>
  A text is free of a keyword when it is not empty, begins with neither whitespace nor the
  keyword (in any case), ends with no whitespace, and no run of whitespace in it is
  followed by the keyword. An \<open>atom\<close> is free of both AND and OR: a single comparison.
\<close>

definition starts_like :: "string \<Rightarrow> string \<Rightarrow> bool" where
  "starts_like kw s = (upper (take (length kw) s) = kw)"

fun plain_from :: "string \<Rightarrow> string \<Rightarrow> bool" where
  "plain_from kw [] = True"
| "plain_from kw (c # cs) =
     ((if isspace c then cs \<noteq> [] \<and> (isspace (hd cs) \<or> \<not> starts_like kw cs) else True)
      \<and> plain_from kw cs)"

definition plain :: "string \<Rightarrow> string \<Rightarrow> bool" where
  "plain kw x = (x \<noteq> [] \<and> \<not> isspace (hd x) \<and> \<not> starts_like kw x \<and> plain_from kw x)"

definition atom :: "string \<Rightarrow> bool" where
  "atom x = (plain ''AND'' x \<and> plain ''OR'' x)"

text \<open>Disjunction and conjunction of two outcomes, left to right, the first error ending it.\<close>

definition lazy_or :: "error + bool \<Rightarrow> error + bool \<Rightarrow> error + bool" where
  "lazy_or x y = (case x of Inl e \<Rightarrow> Inl e | Inr a \<Rightarrow> if a then Inr True else y)"

definition lazy_and :: "error + bool \<Rightarrow> error + bool \<Rightarrow> error + bool" where
  "lazy_and x y = (case x of Inl e \<Rightarrow> Inl e | Inr a \<Rightarrow> if a then y else Inr False)"

section \<open>Index consistency\<close>

text \<open>The entry of an index for a key, \<^verbatim>\<open>entries.get(key, [])\<close>.\<close>

definition entries_get :: "(pyval list \<times> nat list) list \<Rightarrow> pyval list \<Rightarrow> nat list" where
  "entries_get es key =
     (case find (\<lambda>(k, ps). key_eq k key) es of
        None \<Rightarrow> []
      | Some (k, ps) \<Rightarrow> ps)"

text \<open>
  Index consistency: no entry is missing (every position is listed under its row's key)
  and none is stale (every listed position is a position of the table whose row has the
  entry's key).
\<close>

definition index_consistent_with :: "row list \<Rightarrow> index \<Rightarrow> bool" where
  "index_consistent_with rs idx =
     (list_all (\<lambda>p. p \<in> set (entries_get (entries idx) (index_key (column_names idx) (rs ! p))))
        [0..<length rs]
      \<and> list_all (\<lambda>(k, ps).
            list_all (\<lambda>p. p < length rs \<and> key_eq k (index_key (column_names idx) (rs ! p))) ps)
          (entries idx))"

definition index_consistent :: "table \<Rightarrow> bool" where
  "index_consistent table =
     list_all (\<lambda>(n, idx). index_consistent_with (rows table) idx) (indexes table)"

text \<open>An index is fresh when its entries are what rebuilding it from the rows gives.\<close>

definition index_fresh :: "row list \<Rightarrow> index \<Rightarrow> bool" where
  "index_fresh rs idx = (entries idx = index_rows_from (column_names idx) 0 rs [])"

definition table_fresh :: "table \<Rightarrow> bool" where
  "table_fresh table = list_all (\<lambda>(n, idx). index_fresh (rows table) idx) (indexes table)"

text \<open>The engine with no table and nothing on disk.\<close>

definition empty_engine :: engine where
  "empty_engine = \<lparr>tables = Map.empty, transaction_log = [], in_transaction = False,
                   disk = Map.empty\<rparr>"

text \<open>The entries built so far are right for the first \<open>n\<close> rows.\<close>

definition entries_ok :: "string list \<Rightarrow> row list \<Rightarrow> nat \<Rightarrow> (pyval list \<times> nat list) list \<Rightarrow> bool" where
  "entries_ok cols rs n es =
     ((\<forall>p<n. p \<in> set (entries_get es (index_key cols (rs ! p))))
      \<and> (\<forall>k ps p. (k, ps) \<in> set es \<and> p \<in> set ps \<longrightarrow>
             p < n \<and> key_eq k (index_key cols (rs ! p))))"

section \<open>Persisted changes\<close>

text \<open>
  The table named \<open>n\<close> in the state \<open>st'\<close> is what it was in \<open>st\<close>, or it equals its
  own snapshot on disk.
\<close>

definition persisted_or_unchanged :: "engine \<Rightarrow> engine \<Rightarrow> string \<Rightarrow> bool" where
  "persisted_or_unchanged st st' n = (tables st' n = tables st n \<or> disk st' n = tables st' n)"

text \<open>
  The sample database after \<^verbatim>\<open>UPDATE t SET id = 5\<close> has failed on its second row: the
  first row holds 5 in memory, and the snapshot of \<open>t\<close> on disk is still \<open>demo_t\<close>.
\<close>

definition demo_stale :: engine where
  "demo_stale = fst (execute_sql demo_lib demo_db ''UPDATE t SET id = 5'')"

section \<open>Literal coercion\<close>













section \<open>INSERT and the constraint validator\<close>

lemma demo_columns_parsed:
  "parse_column_defs (split_char (CHR '','') ''id INTEGER PRIMARY KEY, name TEXT NOT NULL'')
     = Inr [id_col, name_col]"
  by code_simp



lemma validate_columns_duplicate:
  assumes "c \<in> set cols" "is_unique c" "map_of r (col_name c) = Some v" "v \<noteq> VNone"
    and "list_ex (\<lambda>existing_row. py_eq (row_get existing_row (col_name c)) v) existing"
  shows "validate_columns existing r cols \<noteq> None"
  using assms(1)
proof (induction cols)
  case Nil
  then show ?case by simp
next
  case (Cons col cols)
  show ?case
  proof (cases "col = c")
    case True
    then show ?thesis using assms(2-5) by simp
  next
    case False
    with Cons have "validate_columns existing r cols \<noteq> None" by simp
    then show ?thesis by (auto split: option.splits)
  qed
qed

lemma insert_groups_failure_unchanged:
  "insert_groups L st g = (st', Inl e) \<Longrightarrow> st' = st"
  by (auto simp: insert_groups_def Let_def split: prod.splits option.splits sum.splits if_splits)










text \<open>A column that CREATE TABLE parses as primary is also unique.\<close>

lemma parsed_primary_is_unique:
  "parse_column_def col_def = Inr col \<Longrightarrow> is_primary col \<Longrightarrow> is_unique col"
  by (auto simp: parse_column_def_def Let_def split: list.splits option.splits)

text \<open>
  Claim C1. When the candidate row of an INSERT into a table carries, for a unique column,
  a non-null value equal to that column's value in an existing row, validation raises, the
  INSERT fails with that error and the engine state (the table's rows and indexes, and the
  disk) is unchanged. Any failed INSERT leaves the state as it was: the row is appended
  only after validation.
\<close>

theorem insert_duplicate_rejected:
  assumes "tables st tname = Some table"
    and "c \<in> set (columns table)" and "is_unique c"
    and "insert_values L values_str = Inr vals"
    and "length (insert_col_names table columns_str) = length vals"
    and "map_of (candidate_row table columns_str vals) (col_name c) = Some v"
    and "v \<noteq> VNone"
    and "existing \<in> set (rows table)" and "py_eq (row_get existing (col_name c)) v"
  shows "(\<exists>e. validate_row table (candidate_row table columns_str vals) = Some e
              \<and> insert_groups L st (tname, columns_str, values_str) = (st, Inl e))
       \<and> (\<forall>L sql st' e. execute_insert L st sql = (st', Inl e) \<longrightarrow> st' = st)"
proof
  have "list_ex (\<lambda>existing_row. py_eq (row_get existing_row (col_name c)) v) (rows table)"
    using assms(8,9) by (auto simp: list_ex_iff)
  then have "validate_row table (candidate_row table columns_str vals) \<noteq> None"
    unfolding validate_row_def using assms(2,3,6,7) validate_columns_duplicate by blast
  then obtain e where e: "validate_row table (candidate_row table columns_str vals) = Some e"
    by auto
  then have "insert_groups L st (tname, columns_str, values_str) = (st, Inl e)"
    using assms(1,4,5) by (simp add: insert_groups_def)
  with e show "\<exists>e. validate_row table (candidate_row table columns_str vals) = Some e
              \<and> insert_groups L st (tname, columns_str, values_str) = (st, Inl e)"
    by blast
  show "\<forall>L sql st' e. execute_insert L st sql = (st', Inl e) \<longrightarrow> st' = st"
    by (auto simp: execute_insert_def split: option.splits dest: insert_groups_failure_unchanged)
qed

theorem insert_duplicate_rejected_witness:
  "tables demo_db ''t'' = Some demo_t
   \<and> id_col \<in> set (columns demo_t) \<and> is_unique id_col
   \<and> insert_values demo_lib (''1, '' @ quoted ''b'') = Inr [VInt 1, VText ''b'']
   \<and> length (insert_col_names demo_t None) = length [VInt 1, VText ''b'']
   \<and> map_of (candidate_row demo_t None [VInt 1, VText ''b'']) (col_name id_col) = Some (VInt 1)
   \<and> VInt 1 \<noteq> VNone
   \<and> [(''id'', VInt 1), (''name'', VText ''a'')] \<in> set (rows demo_t)
   \<and> py_eq (row_get [(''id'', VInt 1), (''name'', VText ''a'')] (col_name id_col)) (VInt 1)
   \<and> (\<exists>e. validate_row demo_t (candidate_row demo_t None [VInt 1, VText ''b'']) = Some e
              \<and> insert_groups demo_lib demo_db (''t'', None, ''1, '' @ quoted ''b'')
                  = (demo_db, Inl e))"
proof -
  have h1: "tables demo_db ''t'' = Some demo_t" by (simp add: demo_db_def)
  have h2: "id_col \<in> set (columns demo_t)" by code_simp
  have h3: "is_unique id_col" by code_simp
  have h4: "insert_values demo_lib (''1, '' @ quoted ''b'') = Inr [VInt 1, VText ''b'']"
    by code_simp
  have h5: "length (insert_col_names demo_t None) = length [VInt 1, VText ''b'']"
    by code_simp
  have h6: "map_of (candidate_row demo_t None [VInt 1, VText ''b'']) (col_name id_col)
      = Some (VInt 1)"
    by code_simp
  have h7: "VInt 1 \<noteq> VNone" by simp
  have h8: "[(''id'', VInt 1), (''name'', VText ''a'')] \<in> set (rows demo_t)" by code_simp
  have h9: "py_eq (row_get [(''id'', VInt 1), (''name'', VText ''a'')] (col_name id_col)) (VInt 1)"
    by code_simp
  from insert_duplicate_rejected[OF h1 h2 h3 h4 h5 h6 h7 h8 h9] h1 h2 h3 h4 h5 h6 h7 h8 h9
  show ?thesis by blast
qed

text \<open>
  An INSERT into an existing table for which no candidate row is built fails and leaves
  the state unchanged: a conversion of a token has raised, or the number of values is not
  the number of columns.
\<close>

lemma insert_without_candidate_fails:
  assumes "tables st tname = Some table"
  shows "(insert_values L values_str = Inl e
            \<longrightarrow> insert_groups L st (tname, columns_str, values_str) = (st, Inl e))
       \<and> (insert_values L values_str = Inr vals
            \<longrightarrow> length (insert_col_names table columns_str) \<noteq> length vals
            \<longrightarrow> (\<exists>e'. insert_groups L st (tname, columns_str, values_str) = (st, Inl e')))"
  using assms by (simp add: insert_groups_def)




section \<open>The transaction log\<close>

lemma same_transaction_refl: "same_transaction st st"
  by (simp add: same_transaction_def)

lemma save_table_frame: "same_transaction st (save_table st' n) = same_transaction st st'"
  by (simp add: save_table_def same_transaction_def split: option.splits)

lemma tables_update_frame:
  "same_transaction st (st\<lparr>tables := m\<rparr>)"
  by (simp add: same_transaction_def)

lemma insert_frame: "same_transaction st (fst (execute_insert L st sql))"
  by (auto simp: execute_insert_def insert_groups_def Let_def save_table_frame
      tables_update_frame same_transaction_refl split: option.splits prod.splits sum.splits)

lemma update_frame: "same_transaction st (fst (execute_update L st sql))"
  by (auto simp: execute_update_def update_groups_def Let_def save_table_frame
      tables_update_frame same_transaction_refl split: option.splits prod.splits sum.splits)

lemma delete_frame: "same_transaction st (fst (execute_delete L st sql))"
  by (auto simp: execute_delete_def delete_groups_def Let_def save_table_frame
      tables_update_frame same_transaction_refl split: option.splits prod.splits sum.splits)

lemma select_frame: "same_transaction st (fst (execute_select L st sql))"
  by (auto simp: execute_select_def same_transaction_refl split: option.splits)

lemma create_table_frame: "same_transaction st (fst (execute_create_table L st sql))"
  by (auto simp: execute_create_table_def create_table_groups_def Let_def save_table_frame
      tables_update_frame same_transaction_refl split: option.splits prod.splits sum.splits)

lemma drop_table_frame: "same_transaction st (fst (execute_drop_table L st sql))"
  by (auto simp: execute_drop_table_def same_transaction_def split: option.splits)

lemma create_index_frame: "same_transaction st (fst (execute_create_index L st sql))"
  by (auto simp: execute_create_index_def create_index_groups_def Let_def save_table_frame
      tables_update_frame same_transaction_refl split: option.splits prod.splits sum.splits)

lemma startswith_append: "startswith u (p @ q) \<Longrightarrow> startswith u p"
proof -
  assume "startswith u (p @ q)"
  then have a: "take (length p + length q) u = p @ q" by (simp add: startswith_def)
  have "take (length p) u = take (length p) (take (length p + length q) u)"
    by (simp add: min_def)
  also have "\<dots> = p" unfolding a by simp
  finally show ?thesis by (simp add: startswith_def)
qed

lemma begin_transaction_prefix:
  "startswith u ''BEGIN TRANSACTION'' \<Longrightarrow> startswith u ''BEGIN''"
  using startswith_append[of u "''BEGIN''" "'' TRANSACTION''"] by simp

lemma dispatch_frame:
  "\<not> transaction_keyword sql \<Longrightarrow> same_transaction st (fst (dispatch L st sql))"
  unfolding dispatch_def Let_def transaction_keyword_def
  using insert_frame update_frame delete_frame select_frame create_table_frame
    drop_table_frame create_index_frame same_transaction_refl
  by (auto dest: begin_transaction_prefix)


lemma startswith_conflict:
  "startswith u p \<Longrightarrow> startswith u q \<Longrightarrow> take (min (length p) (length q)) p = take (min (length p) (length q)) q"
proof -
  assume "startswith u p" "startswith u q"
  then have p: "take (length p) u = p" and q: "take (length q) u = q"
    by (simp_all add: startswith_def)
  have "take (min (length p) (length q)) p = take (min (length p) (length q)) (take (length p) u)"
    by (simp add: p)
  also have "\<dots> = take (min (length p) (length q)) (take (length q) u)"
    by (simp add: min_def)
  also have "\<dots> = take (min (length p) (length q)) q" by (simp add: q)
  finally show ?thesis .
qed

lemma dispatch_commit:
  assumes "startswith (upper sql) ''COMMIT''"
  shows "dispatch L st sql =
     (st\<lparr>in_transaction := False, transaction_log := []\<rparr>,
      Inr [[(''status'', VText ''Transaction committed''),
            (''operations'', VInt (int (length (transaction_log st))))]])"
proof -
  have "\<not> startswith (upper sql) q"
    if "q \<in> set [''CREATE TABLE'', ''INSERT'', ''SELECT'', ''UPDATE'', ''DELETE'', ''DROP TABLE'',
                  ''CREATE INDEX'', ''BEGIN TRANSACTION'', ''BEGIN'']" for q
    using startswith_conflict[OF assms, of q] that by auto
  then show ?thesis
    using assms by (simp add: dispatch_def Let_def commit_transaction_def)
qed

lemma dispatch_rollback:
  assumes "startswith (upper sql) ''ROLLBACK''"
  shows "dispatch L st sql =
     (rollback_transaction st, Inr [[(''status'', VText ''Transaction rolled back'')]])"
proof -
  have "\<not> startswith (upper sql) q"
    if "q \<in> set [''CREATE TABLE'', ''INSERT'', ''SELECT'', ''UPDATE'', ''DELETE'', ''DROP TABLE'',
                  ''CREATE INDEX'', ''BEGIN TRANSACTION'', ''BEGIN'', ''COMMIT'']" for q
    using startswith_conflict[OF assms, of q] that by auto
  then show ?thesis
    using assms by (simp add: dispatch_def Let_def)
qed

lemma dispatch_begin:
  assumes "startswith (upper sql) ''BEGIN''"
  shows "dispatch L st sql =
     (begin_transaction st, Inr [[(''status'', VText ''Transaction started'')]])"
proof -
  have "\<not> startswith (upper sql) q"
    if "q \<in> set [''CREATE TABLE'', ''INSERT'', ''SELECT'', ''UPDATE'', ''DELETE'', ''DROP TABLE'',
                  ''CREATE INDEX'']" for q
    using startswith_conflict[OF assms, of q] that by auto
  then show ?thesis
    using assms by (simp add: dispatch_def Let_def)
qed


lemma execute_sql_open:
  "in_transaction st \<Longrightarrow>
   execute_sql L st sql
     = dispatch L (st\<lparr>transaction_log := transaction_log st @ [normalize_sql sql]\<rparr>) (normalize_sql sql)"
  by (simp add: execute_sql_def Let_def)

lemma execute_sql_open_log:
  assumes "in_transaction st" "\<not> transaction_keyword (normalize_sql sql)"
  shows "transaction_log (fst (execute_sql L st sql)) = transaction_log st @ [normalize_sql sql]
       \<and> in_transaction (fst (execute_sql L st sql))"
  using dispatch_frame[OF assms(2),
      of "st\<lparr>transaction_log := transaction_log st @ [normalize_sql sql]\<rparr>" L] assms(1)
  by (simp add: execute_sql_open same_transaction_def)

text \<open>
  Claim C9. While a transaction is open, the entry point appends the normalized statement
  text to the log and only then dispatches. So a statement other than BEGIN, COMMIT and
  ROLLBACK leaves the log extended by its text whether it succeeds or raises; a COMMIT
  counts itself among the logged operations; and COMMIT and ROLLBACK clear a log that
  already holds them.
\<close>

theorem statement_logged_before_dispatch:
  assumes "in_transaction st"
  shows "execute_sql L st sql
           = dispatch L (st\<lparr>transaction_log := transaction_log st @ [normalize_sql sql]\<rparr>)
               (normalize_sql sql)
       \<and> (\<not> transaction_keyword (normalize_sql sql) \<longrightarrow>
            transaction_log (fst (execute_sql L st sql)) = transaction_log st @ [normalize_sql sql])
       \<and> (startswith (upper (normalize_sql sql)) ''COMMIT'' \<longrightarrow>
            snd (execute_sql L st sql)
              = Inr [[(''status'', VText ''Transaction committed''),
                      (''operations'', VInt (int (length (transaction_log st)) + 1))]]
            \<and> transaction_log (fst (execute_sql L st sql)) = [])
       \<and> (startswith (upper (normalize_sql sql)) ''ROLLBACK'' \<longrightarrow>
            transaction_log (fst (execute_sql L st sql)) = [])"
proof (intro conjI impI)
  show "execute_sql L st sql
           = dispatch L (st\<lparr>transaction_log := transaction_log st @ [normalize_sql sql]\<rparr>)
               (normalize_sql sql)"
    using assms by (rule execute_sql_open)
  show "transaction_log (fst (execute_sql L st sql)) = transaction_log st @ [normalize_sql sql]"
    if "\<not> transaction_keyword (normalize_sql sql)"
    using execute_sql_open_log[OF assms that] by simp
  show "snd (execute_sql L st sql)
              = Inr [[(''status'', VText ''Transaction committed''),
                      (''operations'', VInt (int (length (transaction_log st)) + 1))]]"
    if "startswith (upper (normalize_sql sql)) ''COMMIT''"
    using assms that by (simp add: execute_sql_open dispatch_commit)
  show "transaction_log (fst (execute_sql L st sql)) = []"
    if "startswith (upper (normalize_sql sql)) ''COMMIT''"
    using assms that by (simp add: execute_sql_open dispatch_commit)
  show "transaction_log (fst (execute_sql L st sql)) = []"
    if "startswith (upper (normalize_sql sql)) ''ROLLBACK''"
    using assms that
    by (simp add: execute_sql_open dispatch_rollback rollback_transaction_def load_tables_def)
qed


theorem statement_logged_before_dispatch_witness:
  "in_transaction (begin_transaction demo_db)
   \<and> \<not> transaction_keyword (normalize_sql ''FOO'')
   \<and> transaction_log (fst (execute_sql demo_lib (begin_transaction demo_db) ''FOO''))
       = transaction_log (begin_transaction demo_db) @ [normalize_sql ''FOO'']
   \<and> snd (execute_sql demo_lib (begin_transaction demo_db) ''FOO'')
       = Inl (ValueError ''Unsupported SQL command: FOO'')"
proof -
  have h1: "in_transaction (begin_transaction demo_db)" by (simp add: begin_transaction_def)
  have h2: "\<not> transaction_keyword (normalize_sql ''FOO'')" by code_simp
  have h3: "snd (execute_sql demo_lib (begin_transaction demo_db) ''FOO'')
       = Inl (ValueError ''Unsupported SQL command: FOO'')"
    by code_simp
  from statement_logged_before_dispatch[OF h1, of demo_lib "''FOO''"] h1 h2 h3
  show ?thesis by blast
qed

lemma fst_run_Cons:
  "fst (run L st (sql # rest)) = fst (run L (fst (execute_sql L st sql)) rest)"
  by (simp split: prod.splits)

lemma run_open_log:
  "in_transaction st \<Longrightarrow> list_all (\<lambda>s. \<not> transaction_keyword (normalize_sql s)) sqls \<Longrightarrow>
   in_transaction (fst (run L st sqls))
   \<and> transaction_log (fst (run L st sqls)) = transaction_log st @ map normalize_sql sqls"
proof (induction sqls arbitrary: st)
  case Nil
  then show ?case by simp
next
  case (Cons sql sqls)
  define st1 where "st1 = fst (execute_sql L st sql)"
  from Cons.prems have nk: "\<not> transaction_keyword (normalize_sql sql)" by simp
  from execute_sql_open_log[OF Cons.prems(1) nk, of L]
  have st1: "in_transaction st1" "transaction_log st1 = transaction_log st @ [normalize_sql sql]"
    by (simp_all add: st1_def)
  from Cons.prems have "list_all (\<lambda>s. \<not> transaction_keyword (normalize_sql s)) sqls" by simp
  from Cons.IH[OF st1(1) this] st1(2) show ?case
    unfolding fst_run_Cons st1_def[symmetric] by simp
qed

lemma normalize_BEGIN: "normalize_sql ''BEGIN'' = ''BEGIN''" by code_simp
lemma normalize_COMMIT: "normalize_sql ''COMMIT'' = ''COMMIT''" by code_simp
lemma normalize_ROLLBACK: "normalize_sql ''ROLLBACK'' = ''ROLLBACK''" by code_simp
lemma starts_BEGIN: "startswith (upper ''BEGIN'') ''BEGIN''" by code_simp
lemma starts_COMMIT: "startswith (upper ''COMMIT'') ''COMMIT''" by code_simp
lemma starts_ROLLBACK: "startswith (upper ''ROLLBACK'') ''ROLLBACK''" by code_simp

lemma execute_sql_BEGIN:
  "in_transaction (fst (execute_sql L st ''BEGIN''))
   \<and> transaction_log (fst (execute_sql L st ''BEGIN'')) = []
   \<and> tables (fst (execute_sql L st ''BEGIN'')) = tables st
   \<and> disk (fst (execute_sql L st ''BEGIN'')) = disk st"
  by (simp add: execute_sql_def Let_def normalize_BEGIN dispatch_begin starts_BEGIN
      begin_transaction_def)

lemma execute_sql_COMMIT:
  "in_transaction st \<Longrightarrow>
   execute_sql L st ''COMMIT''
     = (st\<lparr>in_transaction := False, transaction_log := []\<rparr>,
        Inr [[(''status'', VText ''Transaction committed''),
              (''operations'', VInt (int (length (transaction_log st)) + 1))]])"
  by (simp add: execute_sql_def Let_def normalize_COMMIT dispatch_commit starts_COMMIT)

lemma execute_sql_ROLLBACK:
  "execute_sql L st ''ROLLBACK''
     = (st\<lparr>in_transaction := False, transaction_log := [], tables := tables st ++ disk st\<rparr>,
        Inr [[(''status'', VText ''Transaction rolled back'')]])"
  by (simp add: execute_sql_def Let_def normalize_ROLLBACK dispatch_rollback starts_ROLLBACK
      rollback_transaction_def load_tables_def)

text \<open>
  Claim C4, as amended. After BEGIN, each statement's normalized text (stripped, newlines
  and tabs replaced by spaces) is appended to the log before the statement is dispatched,
  so the log lists these texts in execution order, applied or not. COMMIT is logged like
  any statement before it reads the log: it reports one more than the number of statements
  executed since BEGIN, which is the length of the log when it is read. After COMMIT or
  ROLLBACK the log is empty.
\<close>

theorem transaction_log_contents:
  assumes "list_all (\<lambda>s. \<not> transaction_keyword (normalize_sql s)) sqls"
  shows "in_transaction (fst (run L st (''BEGIN'' # sqls)))
       \<and> transaction_log (fst (run L st (''BEGIN'' # sqls))) = map normalize_sql sqls
       \<and> snd (execute_sql L (fst (run L st (''BEGIN'' # sqls))) ''COMMIT'')
           = Inr [[(''status'', VText ''Transaction committed''),
                   (''operations'', VInt (int (length sqls) + 1))]]
       \<and> transaction_log (fst (execute_sql L (fst (run L st (''BEGIN'' # sqls))) ''COMMIT'')) = []
       \<and> transaction_log (fst (execute_sql L (fst (run L st (''BEGIN'' # sqls))) ''ROLLBACK''))
           = []"
proof -
  define st0 where "st0 = fst (execute_sql L st ''BEGIN'')"
  from execute_sql_BEGIN[of L st] have st0: "in_transaction st0" "transaction_log st0 = []"
    by (simp_all add: st0_def)
  define st1 where "st1 = fst (run L st0 sqls)"
  have r: "fst (run L st (''BEGIN'' # sqls)) = st1"
    unfolding fst_run_Cons st1_def st0_def ..
  from run_open_log[OF st0(1) assms, of L] st0(2)
  have st1: "in_transaction st1" "transaction_log st1 = map normalize_sql sqls"
    by (simp_all add: st1_def)
  show ?thesis
    unfolding r using st1 by (simp add: execute_sql_COMMIT execute_sql_ROLLBACK)
qed

theorem transaction_log_contents_witness:
  "list_all (\<lambda>s. \<not> transaction_keyword (normalize_sql s))
     [''INSERT INTO t VALUES (3, '' @ quoted ''c'' @ '')'', ''FOO'']
   \<and> transaction_log (fst (run demo_lib demo_db
        [''BEGIN'', ''INSERT INTO t VALUES (3, '' @ quoted ''c'' @ '')'', ''FOO'']))
       = map normalize_sql [''INSERT INTO t VALUES (3, '' @ quoted ''c'' @ '')'', ''FOO'']
   \<and> snd (execute_sql demo_lib (fst (run demo_lib demo_db
        [''BEGIN'', ''INSERT INTO t VALUES (3, '' @ quoted ''c'' @ '')'', ''FOO''])) ''COMMIT'')
       = Inr [[(''status'', VText ''Transaction committed''),
               (''operations'',
                VInt (int (length [''INSERT INTO t VALUES (3, '' @ quoted ''c'' @ '')'', ''FOO''])
                      + 1))]]"
proof -
  have h: "list_all (\<lambda>s. \<not> transaction_keyword (normalize_sql s))
     [''INSERT INTO t VALUES (3, '' @ quoted ''c'' @ '')'', ''FOO'']"
    by code_simp
  from transaction_log_contents[OF h, of demo_lib demo_db] h show ?thesis by blast
qed

text \<open>
  The claim as stated has the text logged verbatim and after the statement was applied. A
  counterexample: the statement \<^verbatim>\<open>FOO<tab>BAR\<close> in an open transaction is logged as
  \<^verbatim>\<open>FOO BAR\<close>, is never applied (no command is recognised), and the COMMIT that
  follows reports two operations.
\<close>

theorem logged_text_not_verbatim_nor_applied:
  "snd (run demo_lib demo_db [''BEGIN'', ''FOO'' @ [CHR 0x09] @ ''BAR'', ''COMMIT''])
     = [Inr [[(''status'', VText ''Transaction started'')]],
        Inl (ValueError ''Unsupported SQL command: FOO BAR''),
        Inr [[(''status'', VText ''Transaction committed''), (''operations'', VInt 2)]]]
   \<and> transaction_log (fst (run demo_lib demo_db [''BEGIN'', ''FOO'' @ [CHR 0x09] @ ''BAR'']))
     = [''FOO BAR'']
   \<and> ''FOO BAR'' \<noteq> ''FOO'' @ [CHR 0x09] @ ''BAR''"
  by code_simp

section \<open>ROLLBACK\<close>

lemma save_after_store:
  "save_table (st\<lparr>tables := m(n \<mapsto> T)\<rparr>) n
     = st\<lparr>tables := m(n \<mapsto> T), disk := (disk st)(n \<mapsto> T)\<rparr>"
  by (simp add: save_table_def)

lemma update_sweep_count:
  "update_sweep L cols updates w ps rs n = (rs', Inr m) \<Longrightarrow> n \<le> m \<and> (m = n \<longrightarrow> rs' = rs)"
proof (induction ps arbitrary: rs n)
  case Nil
  then show ?case by simp
next
  case (Cons i ps)
  show ?case
  proof (cases "row_matches L w (rs ! i)")
    case (Inl e)
    with Cons.prems show ?thesis by simp
  next
    case (Inr hit)
    show ?thesis
    proof (cases hit)
      case False
      with Inr Cons.prems have "update_sweep L cols updates w ps rs n = (rs', Inr m)" by simp
      from Cons.IH[OF this] show ?thesis .
    next
      case True
      show ?thesis
      proof (cases "check_updates cols rs i updates")
        case (Some e)
        with True Inr Cons.prems show ?thesis by simp
      next
        case None
        with True Inr Cons.prems
        have "update_sweep L cols updates w ps (rs[i := row_update (rs ! i) updates]) (Suc n)
            = (rs', Inr m)"
          by simp
        from Cons.IH[OF this] show ?thesis by simp
      qed
    qed
  qed
qed

lemma insert_synced:
  "synced st \<Longrightarrow> execute_insert L st sql = (st', Inr res) \<Longrightarrow> synced st'"
  by (auto simp: synced_def execute_insert_def insert_groups_def Let_def save_after_store
      split: option.splits sum.splits if_splits)


lemma update_groups_synced:
  assumes "synced st" "update_groups L st g = (st', Inr res)"
  shows "synced st'"
proof -
  obtain tname set_clause where_clause where g: "g = (tname, set_clause, where_clause)"
    by (cases g) auto
  from assms(2) obtain table where t: "tables st tname = Some table"
    by (auto simp: update_groups_def g split: option.splits)
  from assms(2) t obtain updates
    where u: "parse_set L (split_char (CHR '','') (strip set_clause)) [] = Inr updates"
    by (auto simp: update_groups_def g split: sum.splits)
  obtain rs out where sw: "update_sweep L (columns table) updates where_clause
      [0..<length (rows table)] (rows table) 0 = (rs, out)"
    by (cases "update_sweep L (columns table) updates where_clause
      [0..<length (rows table)] (rows table) 0")
  from assms(2) t u sw obtain n where out: "out = Inr n"
    by (cases out) (auto simp: update_groups_def g)
  show ?thesis
  proof (cases "n > 0")
    case True
    with assms(2) t u sw out
    have "st' = save_table (st\<lparr>tables := (tables st)(tname \<mapsto> rebuild_indexes (table\<lparr>rows := rs\<rparr>))\<rparr>)
        tname"
      by (simp add: update_groups_def g Let_def)
    then show ?thesis using assms(1) by (simp add: save_after_store synced_def)
  next
    case False
    with update_sweep_count[OF sw[unfolded out]] have "rs = rows table" by simp
    moreover from False assms(2) t u sw out
    have "st' = st\<lparr>tables := (tables st)(tname \<mapsto> table\<lparr>rows := rs\<rparr>)\<rparr>"
      by (simp add: update_groups_def g Let_def)
    ultimately show ?thesis using assms(1) t by (simp add: synced_def map_upd_triv)
  qed
qed

lemma update_synced:
  "synced st \<Longrightarrow> execute_update L st sql = (st', Inr res) \<Longrightarrow> synced st'"
  by (auto simp: execute_update_def split: option.splits dest: update_groups_synced)


lemma delete_groups_synced:
  assumes "synced st" "delete_groups L st g = (st', Inr res)"
  shows "synced st'"
proof -
  obtain tname where_clause where g: "g = (tname, where_clause)" by (cases g) auto
  from assms(2) obtain table where t: "tables st tname = Some table"
    by (auto simp: delete_groups_def g split: option.splits)
  from assms(2) t obtain ps where ps: "rows_to_delete L where_clause 0 (rows table) = Inr ps"
    by (auto simp: delete_groups_def g split: sum.splits)
  show ?thesis
  proof (cases "ps = []")
    case False
    with assms(2) t ps obtain T where "st' = save_table (st\<lparr>tables := (tables st)(tname \<mapsto> T)\<rparr>) tname"
      by (auto simp: delete_groups_def g Let_def)
    then show ?thesis using assms(1) by (simp add: save_after_store synced_def)
  next
    case True
    with assms(2) t ps have "st' = st\<lparr>tables := (tables st)(tname \<mapsto> table\<lparr>rows := rows table\<rparr>)\<rparr>"
      by (simp add: delete_groups_def g Let_def)
    then show ?thesis using assms(1) t by (simp add: synced_def map_upd_triv)
  qed
qed

lemma delete_synced:
  "synced st \<Longrightarrow> execute_delete L st sql = (st', Inr res) \<Longrightarrow> synced st'"
  by (auto simp: execute_delete_def split: option.splits dest: delete_groups_synced)

lemma select_synced:
  "synced st \<Longrightarrow> execute_select L st sql = (st', Inr res) \<Longrightarrow> synced st'"
  by (auto simp: execute_select_def split: option.splits)

lemma create_table_synced:
  "synced st \<Longrightarrow> execute_create_table L st sql = (st', Inr res) \<Longrightarrow> synced st'"
  by (auto simp: synced_def execute_create_table_def create_table_groups_def
      save_after_store split: option.splits sum.splits)

lemma drop_table_synced:
  "synced st \<Longrightarrow> execute_drop_table L st sql = (st', Inr res) \<Longrightarrow> synced st'"
  by (auto simp: synced_def execute_drop_table_def split: option.splits)

lemma create_index_groups_synced:
  assumes "synced st" "create_index_groups st g = (st', Inr res)"
  shows "synced st'"
proof -
  obtain index_name tname columns_str where g: "g = (index_name, tname, columns_str)"
    by (cases g) auto
  from assms(2) obtain table where t: "tables st tname = Some table"
    by (auto simp: create_index_groups_def g split: option.splits)
  obtain T err where a: "add_index table index_name (map strip (split_char (CHR '','') columns_str))
      = (T, err)"
    by (cases "add_index table index_name (map strip (split_char (CHR '','') columns_str))")
  from assms(2) t a have "st' = save_table (st\<lparr>tables := (tables st)(tname \<mapsto> T)\<rparr>) tname"
    by (cases err) (auto simp: create_index_groups_def g Let_def split: option.splits)
  then show ?thesis using assms(1) by (simp add: save_after_store synced_def)
qed

lemma create_index_synced:
  "synced st \<Longrightarrow> execute_create_index L st sql = (st', Inr res) \<Longrightarrow> synced st'"
  by (auto simp: execute_create_index_def split: option.splits dest: create_index_groups_synced)


lemma map_add_same: "m ++ m = m"
  by (rule ext) (simp add: map_add_def split: option.splits)

lemma failed_or_synced:
  assumes "\<And>st' res. x = (st', Inr res) \<Longrightarrow> synced st'"
  shows "isl (snd x) \<or> synced (fst x)"
proof (cases x)
  case (Pair st' out)
  then show ?thesis using assms by (cases out) auto
qed

lemma if_failed_or_synced:
  "isl (snd a) \<or> synced (fst a) \<Longrightarrow> isl (snd b) \<or> synced (fst b)
   \<Longrightarrow> isl (snd (if c then a else b)) \<or> synced (fst (if c then a else b))"
  by simp

lemma dispatch_failed_or_synced:
  assumes "synced st"
  shows "isl (snd (dispatch L st sql)) \<or> synced (fst (dispatch L st sql))"
  unfolding dispatch_def Let_def
proof (intro if_failed_or_synced)
  show "isl (snd (execute_create_table L st sql)) \<or> synced (fst (execute_create_table L st sql))"
    using create_table_synced[OF assms] by (rule failed_or_synced)
  show "isl (snd (execute_insert L st sql)) \<or> synced (fst (execute_insert L st sql))"
    using insert_synced[OF assms] by (rule failed_or_synced)
  show "isl (snd (execute_select L st sql)) \<or> synced (fst (execute_select L st sql))"
    using select_synced[OF assms] by (rule failed_or_synced)
  show "isl (snd (execute_update L st sql)) \<or> synced (fst (execute_update L st sql))"
    using update_synced[OF assms] by (rule failed_or_synced)
  show "isl (snd (execute_delete L st sql)) \<or> synced (fst (execute_delete L st sql))"
    using delete_synced[OF assms] by (rule failed_or_synced)
  show "isl (snd (execute_drop_table L st sql)) \<or> synced (fst (execute_drop_table L st sql))"
    using drop_table_synced[OF assms] by (rule failed_or_synced)
  show "isl (snd (execute_create_index L st sql)) \<or> synced (fst (execute_create_index L st sql))"
    using create_index_synced[OF assms] by (rule failed_or_synced)
qed (use assms in \<open>simp_all add: synced_def begin_transaction_def commit_transaction_def
      rollback_transaction_def load_tables_def map_add_same\<close>)

lemma dispatch_synced:
  assumes "synced st" "dispatch L st sql = (st', Inr res)"
  shows "synced st'"
  using dispatch_failed_or_synced[OF assms(1), of L sql] assms(2) by simp

lemma execute_sql_synced:
  assumes "synced st" "snd (execute_sql L st sql) = Inr res"
  shows "synced (fst (execute_sql L st sql))"
proof -
  define st1 where "st1 = (if in_transaction st
      then st\<lparr>transaction_log := transaction_log st @ [normalize_sql sql]\<rparr> else st)"
  have s1: "synced st1" using assms(1) by (simp add: st1_def synced_def)
  have e: "execute_sql L st sql = dispatch L st1 (normalize_sql sql)"
    by (simp add: execute_sql_def Let_def st1_def)
  obtain st' out where d: "dispatch L st1 (normalize_sql sql) = (st', out)"
    by (cases "dispatch L st1 (normalize_sql sql)")
  with assms(2) e have "out = Inr res" by simp
  with dispatch_synced[OF s1] d have "synced st'" by simp
  with e d show ?thesis by simp
qed

text \<open>
  When memory and disk agree before BEGIN and the statement between BEGIN and ROLLBACK
  succeeds, ROLLBACK changes no table.
\<close>

lemma rollback_after_success_when_synced:
  assumes s: "synced st"
    and ok: "snd (execute_sql L (fst (execute_sql L st ''BEGIN'')) sql) = Inr res"
  shows "tables (fst (run L st [''BEGIN'', sql, ''ROLLBACK'']))
           = tables (fst (run L st [''BEGIN'', sql]))"
proof -
  define st0 where "st0 = fst (execute_sql L st ''BEGIN'')"
  define st1 where "st1 = fst (execute_sql L st0 sql)"
  have "synced st0"
    using s execute_sql_BEGIN[of L st] by (simp add: synced_def st0_def)
  from execute_sql_synced[OF this ok[folded st0_def]] have "synced st1"
    by (simp add: st1_def)
  then have "tables st1 ++ disk st1 = tables st1" by (simp add: synced_def map_add_same)
  moreover have "fst (run L st [''BEGIN'', sql, ''ROLLBACK'']) = fst (execute_sql L st1 ''ROLLBACK'')"
    unfolding fst_run_Cons st0_def st1_def by simp
  moreover have "fst (run L st [''BEGIN'', sql]) = st1"
    unfolding fst_run_Cons st0_def st1_def by simp
  ultimately show ?thesis by (simp add: execute_sql_ROLLBACK)
qed

lemma insert_persists:
  "execute_insert L st sql = (st', Inr res) \<Longrightarrow> persisted_or_unchanged st st' n"
  by (auto simp: persisted_or_unchanged_def execute_insert_def insert_groups_def Let_def
      save_after_store split: option.splits sum.splits if_splits)

lemma update_groups_persists:
  assumes "update_groups L st g = (st', Inr res)"
  shows "persisted_or_unchanged st st' n"
proof -
  obtain tname set_clause where_clause where g: "g = (tname, set_clause, where_clause)"
    by (cases g) auto
  from assms obtain table where t: "tables st tname = Some table"
    by (auto simp: update_groups_def g split: option.splits)
  from assms t obtain updates
    where u: "parse_set L (split_char (CHR '','') (strip set_clause)) [] = Inr updates"
    by (auto simp: update_groups_def g split: sum.splits)
  obtain rs out where sw: "update_sweep L (columns table) updates where_clause
      [0..<length (rows table)] (rows table) 0 = (rs, out)"
    by (cases "update_sweep L (columns table) updates where_clause
      [0..<length (rows table)] (rows table) 0")
  from assms t u sw obtain k where out: "out = Inr k"
    by (cases out) (auto simp: update_groups_def g)
  show ?thesis
  proof (cases "k > 0")
    case True
    with assms t u sw out
    have "st' = save_table (st\<lparr>tables := (tables st)(tname \<mapsto> rebuild_indexes (table\<lparr>rows := rs\<rparr>))\<rparr>)
        tname"
      by (simp add: update_groups_def g Let_def)
    then show ?thesis by (simp add: save_after_store persisted_or_unchanged_def)
  next
    case False
    with update_sweep_count[OF sw[unfolded out]] have "rs = rows table" by simp
    moreover from False assms t u sw out
    have "st' = st\<lparr>tables := (tables st)(tname \<mapsto> table\<lparr>rows := rs\<rparr>)\<rparr>"
      by (simp add: update_groups_def g Let_def)
    ultimately show ?thesis using t by (simp add: persisted_or_unchanged_def)
  qed
qed

lemma update_persists:
  "execute_update L st sql = (st', Inr res) \<Longrightarrow> persisted_or_unchanged st st' n"
  by (auto simp: execute_update_def split: option.splits dest: update_groups_persists)

lemma delete_groups_persists:
  assumes "delete_groups L st g = (st', Inr res)"
  shows "persisted_or_unchanged st st' n"
proof -
  obtain tname where_clause where g: "g = (tname, where_clause)" by (cases g) auto
  from assms obtain table where t: "tables st tname = Some table"
    by (auto simp: delete_groups_def g split: option.splits)
  from assms t obtain ps where ps: "rows_to_delete L where_clause 0 (rows table) = Inr ps"
    by (auto simp: delete_groups_def g split: sum.splits)
  show ?thesis
  proof (cases "ps = []")
    case False
    with assms t ps obtain T where "st' = save_table (st\<lparr>tables := (tables st)(tname \<mapsto> T)\<rparr>) tname"
      by (auto simp: delete_groups_def g Let_def)
    then show ?thesis by (simp add: save_after_store persisted_or_unchanged_def)
  next
    case True
    with assms t ps have "st' = st\<lparr>tables := (tables st)(tname \<mapsto> table\<lparr>rows := rows table\<rparr>)\<rparr>"
      by (simp add: delete_groups_def g Let_def)
    then show ?thesis using t by (simp add: persisted_or_unchanged_def)
  qed
qed

lemma delete_persists:
  "execute_delete L st sql = (st', Inr res) \<Longrightarrow> persisted_or_unchanged st st' n"
  by (auto simp: execute_delete_def split: option.splits dest: delete_groups_persists)

lemma select_persists:
  "execute_select L st sql = (st', Inr res) \<Longrightarrow> persisted_or_unchanged st st' n"
  by (auto simp: execute_select_def persisted_or_unchanged_def split: option.splits)

lemma create_table_persists:
  "execute_create_table L st sql = (st', Inr res) \<Longrightarrow> persisted_or_unchanged st st' n"
  by (auto simp: persisted_or_unchanged_def execute_create_table_def create_table_groups_def
      save_after_store split: option.splits sum.splits)

lemma drop_table_persists:
  "execute_drop_table L st sql = (st', Inr res) \<Longrightarrow> persisted_or_unchanged st st' n"
  by (auto simp: persisted_or_unchanged_def execute_drop_table_def split: option.splits)

lemma create_index_groups_persists:
  assumes "create_index_groups st g = (st', Inr res)"
  shows "persisted_or_unchanged st st' n"
proof -
  obtain index_name tname columns_str where g: "g = (index_name, tname, columns_str)"
    by (cases g) auto
  from assms obtain table where t: "tables st tname = Some table"
    by (auto simp: create_index_groups_def g split: option.splits)
  obtain T err where a: "add_index table index_name (map strip (split_char (CHR '','') columns_str))
      = (T, err)"
    by (cases "add_index table index_name (map strip (split_char (CHR '','') columns_str))")
  from assms t a have "st' = save_table (st\<lparr>tables := (tables st)(tname \<mapsto> T)\<rparr>) tname"
    by (cases err) (auto simp: create_index_groups_def g Let_def split: option.splits)
  then show ?thesis by (simp add: save_after_store persisted_or_unchanged_def)
qed

lemma create_index_persists:
  "execute_create_index L st sql = (st', Inr res) \<Longrightarrow> persisted_or_unchanged st st' n"
  by (auto simp: execute_create_index_def split: option.splits dest: create_index_groups_persists)

lemma failed_or_persisted:
  assumes "\<And>st' res. x = (st', Inr res) \<Longrightarrow> persisted_or_unchanged st st' n"
  shows "isl (snd x) \<or> persisted_or_unchanged st (fst x) n"
proof (cases x)
  case (Pair st' out)
  then show ?thesis using assms by (cases out) auto
qed

lemma if_failed_or_persisted:
  "isl (snd a) \<or> persisted_or_unchanged st (fst a) n
   \<Longrightarrow> isl (snd b) \<or> persisted_or_unchanged st (fst b) n
   \<Longrightarrow> isl (snd (if c then a else b)) \<or> persisted_or_unchanged st (fst (if c then a else b)) n"
  by simp

lemma rollback_persisted: "persisted_or_unchanged st (rollback_transaction st) n"
  by (cases "disk st n")
     (simp_all add: persisted_or_unchanged_def rollback_transaction_def load_tables_def
        map_add_def)

lemma dispatch_failed_or_persisted:
  "isl (snd (dispatch L st sql)) \<or> persisted_or_unchanged st (fst (dispatch L st sql)) n"
  unfolding dispatch_def Let_def
proof (intro if_failed_or_persisted)
  show "isl (snd (execute_create_table L st sql))
      \<or> persisted_or_unchanged st (fst (execute_create_table L st sql)) n"
    using create_table_persists by (rule failed_or_persisted)
  show "isl (snd (execute_insert L st sql))
      \<or> persisted_or_unchanged st (fst (execute_insert L st sql)) n"
    using insert_persists by (rule failed_or_persisted)
  show "isl (snd (execute_select L st sql))
      \<or> persisted_or_unchanged st (fst (execute_select L st sql)) n"
    using select_persists by (rule failed_or_persisted)
  show "isl (snd (execute_update L st sql))
      \<or> persisted_or_unchanged st (fst (execute_update L st sql)) n"
    using update_persists by (rule failed_or_persisted)
  show "isl (snd (execute_delete L st sql))
      \<or> persisted_or_unchanged st (fst (execute_delete L st sql)) n"
    using delete_persists by (rule failed_or_persisted)
  show "isl (snd (execute_drop_table L st sql))
      \<or> persisted_or_unchanged st (fst (execute_drop_table L st sql)) n"
    using drop_table_persists by (rule failed_or_persisted)
  show "isl (snd (execute_create_index L st sql))
      \<or> persisted_or_unchanged st (fst (execute_create_index L st sql)) n"
    using create_index_persists by (rule failed_or_persisted)
qed (simp_all add: rollback_persisted,
     simp_all add: persisted_or_unchanged_def begin_transaction_def commit_transaction_def)

lemma execute_sql_persists:
  assumes "snd (execute_sql L st sql) = Inr res"
  shows "persisted_or_unchanged st (fst (execute_sql L st sql)) n"
proof -
  define st1 where "st1 = (if in_transaction st
      then st\<lparr>transaction_log := transaction_log st @ [normalize_sql sql]\<rparr> else st)"
  have t: "tables st1 = tables st" by (simp add: st1_def)
  have e: "execute_sql L st sql = dispatch L st1 (normalize_sql sql)"
    by (simp add: execute_sql_def Let_def st1_def)
  from dispatch_failed_or_persisted[of L st1 "normalize_sql sql" n] assms
  have "persisted_or_unchanged st1 (fst (dispatch L st1 (normalize_sql sql))) n"
    unfolding e by simp
  then show ?thesis unfolding e by (simp add: persisted_or_unchanged_def t)
qed

lemma rollback_leaves_persisted_table:
  "persisted_or_unchanged st st' n \<Longrightarrow> tables st' n \<noteq> tables st n
   \<Longrightarrow> tables (rollback_transaction st') n = tables st' n"
  by (auto simp: persisted_or_unchanged_def rollback_transaction_def load_tables_def map_add_def
      split: option.splits)

lemma dispatch_insert:
  assumes "startswith (upper sql) ''INSERT''"
  shows "dispatch L st sql = execute_insert L st sql"
proof -
  have "\<not> startswith (upper sql) ''CREATE TABLE''"
    using startswith_conflict[OF assms, of "''CREATE TABLE''"] by auto
  then show ?thesis using assms by (simp add: dispatch_def Let_def)
qed

lemma insert_groups_appends:
  assumes "insert_groups L st (tname, columns_str, values_str) = (st', Inr res)"
  shows "\<exists>table r. tables st tname = Some table
           \<and> tables st' tname = Some (add_row table r) \<and> disk st' tname = Some (add_row table r)"
  using assms
  by (auto simp: insert_groups_def Let_def save_after_store
      split: option.splits sum.splits if_splits)

lemma rows_add_row: "rows (add_row table r) = rows table @ [r]"
  by (simp add: add_row_def Let_def)

lemma insert_stmt: "normalize_sql (''INSERT INTO t VALUES (3, '' @ quoted ''c'' @ '')'')
    = ''INSERT INTO t VALUES (3, '' @ quoted ''c'' @ '')''"
  by code_simp

text \<open>
  Claim C3, as amended. From every engine state, ROLLBACK returns the transaction manager
  to idle, clears the log and replaces every in-memory table that has a persisted snapshot
  by that snapshot. After BEGIN, one statement and ROLLBACK, the tables are those the
  statement left, each overridden by its snapshot on disk at that moment, which need not be
  the one persisted before BEGIN: a table that a successful statement has changed has been
  persisted by that statement, and is after ROLLBACK as the statement left it. In
  particular, after BEGIN, a successful INSERT and ROLLBACK, the table holds the rows it
  had before BEGIN followed by the inserted row.
\<close>

theorem rollback_reloads_snapshots:
  "fst (execute_sql L st ''ROLLBACK'')
     = st\<lparr>in_transaction := False, transaction_log := [], tables := tables st ++ disk st\<rparr>
   \<and> (\<forall>n table. disk st n = Some table \<longrightarrow>
         tables (fst (execute_sql L st ''ROLLBACK'')) n = Some table)
   \<and> tables (fst (run L st [''BEGIN'', sql, ''ROLLBACK'']))
       = tables (fst (run L st [''BEGIN'', sql])) ++ disk (fst (run L st [''BEGIN'', sql]))
   \<and> (snd (execute_sql L (fst (execute_sql L st ''BEGIN'')) sql) = Inr res \<longrightarrow>
        tables (fst (run L st [''BEGIN'', sql])) n \<noteq> tables st n \<longrightarrow>
          tables (fst (run L st [''BEGIN'', sql, ''ROLLBACK''])) n
            = tables (fst (run L st [''BEGIN'', sql])) n)
   \<and> (startswith (upper (normalize_sql sql)) ''INSERT'' \<longrightarrow>
        re_insert L (normalize_sql sql) = Some (tname, columns_str, values_str) \<longrightarrow>
        snd (execute_sql L (fst (execute_sql L st ''BEGIN'')) sql) = Inr res \<longrightarrow>
          (\<exists>table r. tables st tname = Some table
             \<and> map_option rows (tables (fst (run L st [''BEGIN'', sql, ''ROLLBACK''])) tname)
                 = Some (rows table @ [r])))"
proof -
  define st0 where "st0 = fst (execute_sql L st ''BEGIN'')"
  define st1 where "st1 = fst (execute_sql L st0 sql)"
  have r2: "fst (run L st [''BEGIN'', sql]) = st1"
    unfolding fst_run_Cons st0_def st1_def by simp
  have r3: "fst (run L st [''BEGIN'', sql, ''ROLLBACK'']) = fst (execute_sql L st1 ''ROLLBACK'')"
    unfolding fst_run_Cons st0_def st1_def by simp
  have t0: "tables st0 = tables st" and open0: "in_transaction st0"
    using execute_sql_BEGIN[of L st] by (simp_all add: st0_def)
  have rb: "tables (fst (execute_sql L st1 ''ROLLBACK'')) = tables (rollback_transaction st1)"
    by (simp add: execute_sql_ROLLBACK rollback_transaction_def load_tables_def)
  have a: "fst (execute_sql L st ''ROLLBACK'')
     = st\<lparr>in_transaction := False, transaction_log := [], tables := tables st ++ disk st\<rparr>"
    by (simp add: execute_sql_ROLLBACK)
  have b: "\<forall>n table. disk st n = Some table \<longrightarrow>
         tables (fst (execute_sql L st ''ROLLBACK'')) n = Some table"
    by (simp add: execute_sql_ROLLBACK)
  have c: "tables (fst (run L st [''BEGIN'', sql, ''ROLLBACK'']))
       = tables (fst (run L st [''BEGIN'', sql])) ++ disk (fst (run L st [''BEGIN'', sql]))"
    unfolding r2 r3 by (simp add: execute_sql_ROLLBACK)
  have d: "tables (fst (run L st [''BEGIN'', sql, ''ROLLBACK''])) n
            = tables (fst (run L st [''BEGIN'', sql])) n"
    if ok: "snd (execute_sql L (fst (execute_sql L st ''BEGIN'')) sql) = Inr res"
      and ch: "tables (fst (run L st [''BEGIN'', sql])) n \<noteq> tables st n"
  proof -
    from execute_sql_persists[OF ok[folded st0_def]]
    have "persisted_or_unchanged st0 st1 n" by (simp add: st1_def)
    moreover from ch[unfolded r2] have "tables st1 n \<noteq> tables st0 n" by (simp add: t0)
    ultimately have "tables (rollback_transaction st1) n = tables st1 n"
      by (rule rollback_leaves_persisted_table)
    then show ?thesis unfolding r2 r3 rb .
  qed
  have e: "\<exists>table r. tables st tname = Some table
             \<and> map_option rows (tables (fst (run L st [''BEGIN'', sql, ''ROLLBACK''])) tname)
                 = Some (rows table @ [r])"
    if ins: "startswith (upper (normalize_sql sql)) ''INSERT''"
      and g: "re_insert L (normalize_sql sql) = Some (tname, columns_str, values_str)"
      and ok: "snd (execute_sql L (fst (execute_sql L st ''BEGIN'')) sql) = Inr res"
  proof -
    define st0' where "st0' = st0\<lparr>transaction_log := transaction_log st0 @ [normalize_sql sql]\<rparr>"
    have ex: "execute_sql L st0 sql = insert_groups L st0' (tname, columns_str, values_str)"
      using open0 g by (simp add: execute_sql_open dispatch_insert[OF ins] execute_insert_def
          st0'_def)
    from ok have "snd (insert_groups L st0' (tname, columns_str, values_str)) = Inr res"
      by (simp add: st0_def[symmetric] ex)
    then have "insert_groups L st0' (tname, columns_str, values_str) = (st1, Inr res)"
      by (simp add: st1_def ex prod_eq_iff)
    from insert_groups_appends[OF this] obtain table r
      where tr: "tables st0' tname = Some table" "tables st1 tname = Some (add_row table r)"
        "disk st1 tname = Some (add_row table r)"
      by blast
    have "tables (rollback_transaction st1) tname = Some (add_row table r)"
      using tr(3) by (simp add: rollback_transaction_def load_tables_def)
    then have "map_option rows (tables (fst (run L st [''BEGIN'', sql, ''ROLLBACK''])) tname)
        = Some (rows table @ [r])"
      unfolding r3 rb by (simp add: rows_add_row)
    moreover from tr(1) have "tables st tname = Some table" by (simp add: st0'_def t0)
    ultimately show ?thesis by blast
  qed
  from a b c d e show ?thesis by blast
qed

theorem rollback_reloads_snapshots_witness:
  "disk demo_stale ''t'' = Some demo_t
   \<and> tables demo_stale ''t'' \<noteq> Some demo_t
   \<and> tables (fst (execute_sql demo_lib demo_stale ''ROLLBACK'')) ''t'' = Some demo_t
   \<and> snd (execute_sql demo_lib (fst (execute_sql demo_lib demo_stale ''BEGIN''))
             (''INSERT INTO t VALUES (3, '' @ quoted ''c'' @ '')''))
       = Inr [[(''status'', VText ''Row inserted successfully''), (''row_id'', VInt 3)]]
   \<and> tables (fst (run demo_lib demo_stale
         [''BEGIN'', ''INSERT INTO t VALUES (3, '' @ quoted ''c'' @ '')''])) ''t''
       \<noteq> tables demo_stale ''t''
   \<and> tables (fst (run demo_lib demo_stale
         [''BEGIN'', ''INSERT INTO t VALUES (3, '' @ quoted ''c'' @ '')'', ''ROLLBACK''])) ''t''
       = tables (fst (run demo_lib demo_stale
           [''BEGIN'', ''INSERT INTO t VALUES (3, '' @ quoted ''c'' @ '')''])) ''t''
   \<and> startswith (upper (normalize_sql (''INSERT INTO t VALUES (3, '' @ quoted ''c'' @ '')'')))
        ''INSERT''
   \<and> re_insert demo_lib (normalize_sql (''INSERT INTO t VALUES (3, '' @ quoted ''c'' @ '')''))
        = Some (''t'', None, ''3, '' @ quoted ''c'')
   \<and> (\<exists>table r. tables demo_stale ''t'' = Some table
         \<and> map_option rows (tables (fst (run demo_lib demo_stale
               [''BEGIN'', ''INSERT INTO t VALUES (3, '' @ quoted ''c'' @ '')'', ''ROLLBACK'']))
               ''t'')
             = Some (rows table @ [r]))"
proof -
  note inst = rollback_reloads_snapshots[of demo_lib demo_stale
      "''INSERT INTO t VALUES (3, '' @ quoted ''c'' @ '')''"
      "[[(''status'', VText ''Row inserted successfully''), (''row_id'', VInt 3)]]"
      "''t''" "''t''" None "''3, '' @ quoted ''c''"]
  have h1: "disk demo_stale ''t'' = Some demo_t" by code_simp
  have h2: "tables demo_stale ''t'' \<noteq> Some demo_t" by code_simp
  have h3: "snd (execute_sql demo_lib (fst (execute_sql demo_lib demo_stale ''BEGIN''))
             (''INSERT INTO t VALUES (3, '' @ quoted ''c'' @ '')''))
       = Inr [[(''status'', VText ''Row inserted successfully''), (''row_id'', VInt 3)]]"
    by code_simp
  have h4: "tables (fst (run demo_lib demo_stale
         [''BEGIN'', ''INSERT INTO t VALUES (3, '' @ quoted ''c'' @ '')''])) ''t''
       \<noteq> tables demo_stale ''t''"
    by code_simp
  have h5: "startswith (upper (normalize_sql (''INSERT INTO t VALUES (3, '' @ quoted ''c'' @ '')'')))
        ''INSERT''"
    by code_simp
  have h6: "re_insert demo_lib (normalize_sql (''INSERT INTO t VALUES (3, '' @ quoted ''c'' @ '')''))
        = Some (''t'', None, ''3, '' @ quoted ''c'')"
    by code_simp
  from inst h1 h2 h3 h4 h5 h6 show ?thesis by blast
qed

text \<open>
  The claim as stated has the table return to what was persisted before BEGIN. A
  counterexample: BEGIN, a successful INSERT into \<open>t\<close>, ROLLBACK; the snapshot before BEGIN
  has two rows, the table after ROLLBACK has three.
\<close>

theorem rollback_keeps_persisted_insert:
  "map_option rows (disk demo_db ''t'')
     = Some [[(''id'', VInt 1), (''name'', VText ''a'')], [(''id'', VInt 2), (''name'', VText ''b'')]]
   \<and> map_option rows (tables (fst (run demo_lib demo_db
         [''BEGIN'', ''INSERT INTO t VALUES (3, '' @ quoted ''c'' @ '')'', ''ROLLBACK''])) ''t'')
     = Some [[(''id'', VInt 1), (''name'', VText ''a'')], [(''id'', VInt 2), (''name'', VText ''b'')],
             [(''id'', VInt 3), (''name'', VText ''c'')]]"
  by code_simp

section \<open>SELECT: join and projection\<close>

lemma map_of_fold_update:
  "map_of (fold (\<lambda>(k, v) acc. AList.update k v acc) xs r) key
     = (case map_of (rev xs) key of Some v \<Rightarrow> Some v | None \<Rightarrow> map_of r key)"
proof (induction xs arbitrary: r)
  case Nil
  then show ?case by simp
next
  case (Cons x xs)
  obtain k v where x: "x = (k, v)" by (cases x)
  show ?case
    unfolding x by (simp add: Cons.IH update_conv map_add_def split: option.splits)
qed

lemma length_join_rows: "length (join_rows tn rows1 rows2) = length rows1 * length rows2"
  by (induction rows1) (simp_all add: join_rows_def)

lemma join_rows_nth:
  "i < length rows1 \<Longrightarrow> j < length rows2 \<Longrightarrow>
   join_rows tn rows1 rows2 ! (i * length rows2 + j) = joined_row tn (rows1 ! i) (rows2 ! j)"
proof (induction rows1 arbitrary: i)
  case Nil
  then show ?case by simp
next
  case (Cons r rows1)
  have unf: "join_rows tn (r # rows1) rows2
      = map (joined_row tn r) rows2 @ join_rows tn rows1 rows2"
    by (simp add: join_rows_def)
  show ?case
  proof (cases i)
    case 0
    with Cons.prems show ?thesis by (simp add: unf nth_append)
  next
    case (Suc i')
    with Cons.prems have "i' < length rows1" by simp
    from Cons.IH[OF this Cons.prems(2)] Suc show ?thesis
      by (simp add: unf nth_append)
  qed
qed

text \<open>
  Claim C5, as amended. When the FROM clause names two or more tables (all of which exist),
  the materialized rows are the nested-loop cross product of the first table's rows with
  the second table's rows, the second table's keys prefixed with its name and a dot; the
  WHERE filter, the sort and the projection then run on these rows. No ON condition takes
  part (the result does not depend on \<open>join_info\<close>), and tables after the second
  contribute nothing.
\<close>

theorem join_uses_first_two_tables:
  assumes "parse_from (strip from0) = Inr (tn0 # tn1 # tns, join_info)"
    and "get_table_objs st (tn0 # tn1 # tns) = Inr (t0 # t1 # others)"
  shows "select_groups L st (select0, from0, where_clause, order_clause)
       = (case apply_where L where_clause (join_rows tn1 (rows t0) (rows t1)) of
            Inl e \<Rightarrow> Inl e
          | Inr filtered \<Rightarrow>
             (case apply_order L order_clause filtered of
                Inl e \<Rightarrow> Inl e
              | Inr sorted_rows \<Rightarrow>
                  Inr (map (project_row (parse_columns (strip select0) t0)) sorted_rows)))
       \<and> length (join_rows tn1 (rows t0) (rows t1)) = length (rows t0) * length (rows t1)
       \<and> (\<forall>i j. i < length (rows t0) \<longrightarrow> j < length (rows t1) \<longrightarrow>
             join_rows tn1 (rows t0) (rows t1) ! (i * length (rows t1) + j)
               = joined_row tn1 (rows t0 ! i) (rows t1 ! j))
       \<and> (\<forall>row1 row2 key. map_of (joined_row tn1 row1 row2) key
             = (case map_of (rev (map (\<lambda>(k, v). (tn1 @ ''.'' @ k, v)) row2)) key of
                  Some v \<Rightarrow> Some v
                | None \<Rightarrow> map_of row1 key))"
proof (intro conjI allI impI)
  show "select_groups L st (select0, from0, where_clause, order_clause)
       = (case apply_where L where_clause (join_rows tn1 (rows t0) (rows t1)) of
            Inl e \<Rightarrow> Inl e
          | Inr filtered \<Rightarrow>
             (case apply_order L order_clause filtered of
                Inl e \<Rightarrow> Inl e
              | Inr sorted_rows \<Rightarrow>
                  Inr (map (project_row (parse_columns (strip select0) t0)) sorted_rows)))"
    using assms by (simp add: select_groups_def materialize_def split: sum.splits)
  show "length (join_rows tn1 (rows t0) (rows t1)) = length (rows t0) * length (rows t1)"
    by (rule length_join_rows)
  show "join_rows tn1 (rows t0) (rows t1) ! (i * length (rows t1) + j)
               = joined_row tn1 (rows t0 ! i) (rows t1 ! j)"
    if "i < length (rows t0)" "j < length (rows t1)" for i j
    using that by (rule join_rows_nth)
  show "map_of (joined_row tn1 row1 row2) key
             = (case map_of (rev (map (\<lambda>(k, v). (tn1 @ ''.'' @ k, v)) row2)) key of
                  Some v \<Rightarrow> Some v
                | None \<Rightarrow> map_of row1 key)" for row1 row2 key
    by (simp add: joined_row_def map_of_fold_update)
qed

theorem join_uses_first_two_tables_witness:
  "parse_from (strip ''t JOIN items ON t.id = items.qty'')
     = Inr (''t'' # ''items'' # [], [''t.id = items.qty''])
   \<and> get_table_objs demo_db (''t'' # ''items'' # []) = Inr (demo_t # demo_items # [])
   \<and> select_groups demo_lib demo_db
         (''id, items.qty'', ''t JOIN items ON t.id = items.qty'', None, None)
       = (case apply_where demo_lib None (join_rows ''items'' (rows demo_t) (rows demo_items)) of
            Inl e \<Rightarrow> Inl e
          | Inr filtered \<Rightarrow>
             (case apply_order demo_lib None filtered of
                Inl e \<Rightarrow> Inl e
              | Inr sorted_rows \<Rightarrow>
                  Inr (map (project_row (parse_columns (strip ''id, items.qty'') demo_t))
                         sorted_rows)))
   \<and> length (join_rows ''items'' (rows demo_t) (rows demo_items))
       = length (rows demo_t) * length (rows demo_items)
   \<and> select_groups demo_lib demo_db
         (''id, items.qty'', ''t JOIN items ON t.id = items.qty'', None, None)
       = Inr [[(''id'', VInt 1), (''items.qty'', VInt 3)],
              [(''id'', VInt 2), (''items.qty'', VInt 3)]]"
proof -
  have h1: "parse_from (strip ''t JOIN items ON t.id = items.qty'')
     = Inr (''t'' # ''items'' # [], [''t.id = items.qty''])"
    by code_simp
  have h2: "get_table_objs demo_db (''t'' # ''items'' # []) = Inr (demo_t # demo_items # [])"
    by code_simp
  have h3: "select_groups demo_lib demo_db
         (''id, items.qty'', ''t JOIN items ON t.id = items.qty'', None, None)
       = Inr [[(''id'', VInt 1), (''items.qty'', VInt 3)],
              [(''id'', VInt 2), (''items.qty'', VInt 3)]]"
    by code_simp
  from join_uses_first_two_tables[OF h1 h2, of demo_lib "''id, items.qty''" None None] h1 h2 h3
  show ?thesis by blast
qed

text \<open>
  The claim as stated joins every subsequent table. A counterexample:
  \<^verbatim>\<open>SELECT id, items.qty, t.name FROM t JOIN items JOIN t\<close> returns two rows, not four,
  and no row carries a key of the third table.
\<close>

theorem third_table_not_joined:
  "parse_from (strip ''t JOIN items JOIN t'') = Inr ([''t'', ''items'', ''t''], [])
   \<and> select_groups demo_lib demo_db (''id, items.qty, t.name'', ''t JOIN items JOIN t'', None, None)
       = Inr [[(''id'', VInt 1), (''items.qty'', VInt 3), (''t.name'', VNone)],
              [(''id'', VInt 2), (''items.qty'', VInt 3), (''t.name'', VNone)]]
   \<and> length (rows demo_t) * length (rows demo_items) * length (rows demo_t) = 4"
  by code_simp

lemma project_row_fold: "project_row cols r = fold (project_step r) cols []"
  unfolding project_row_def project_step_def ..

lemma map_of_project_step:
  "map_of (project_step r col acc) c
     = (if c = col \<and> projected r c \<noteq> None then projected r c else map_of acc c)"
  by (auto simp: project_step_def projected_def update_conv row_get_default_def
      split: option.splits)

lemma map_of_fold_project:
  "map_of (fold (project_step r) cols acc) c
     = (if c \<in> set cols \<and> projected r c \<noteq> None then projected r c else map_of acc c)"
proof (induction cols arbitrary: acc)
  case Nil
  then show ?case by simp
next
  case (Cons col cols)
  show ?case by (auto simp: Cons.IH map_of_project_step)
qed

lemma keys_project_step:
  "map fst (project_step r col acc)
     = (if projected r col \<noteq> None \<and> col \<notin> set (map fst acc) then map fst acc @ [col]
        else map fst acc)"
  by (auto simp: project_step_def projected_def update_keys split: option.splits)

lemma keys_fold_project:
  "distinct cols \<Longrightarrow> set cols \<inter> set (map fst acc) = {} \<Longrightarrow>
   map fst (fold (project_step r) cols acc)
     = map fst acc @ filter (\<lambda>c. projected r c \<noteq> None) cols"
proof (induction cols arbitrary: acc)
  case Nil
  then show ?case by simp
next
  case (Cons col cols)
  have d: "distinct cols" using Cons.prems(1) by simp
  have fresh: "col \<notin> set (map fst acc)" using Cons.prems(2) by auto
  have disj: "set cols \<inter> set (map fst (project_step r col acc)) = {}"
    using Cons.prems fresh by (auto simp: keys_project_step)
  show ?case
    using Cons.IH[OF d disj] fresh by (simp add: keys_project_step)
qed

lemma projected_present: "(projected r c \<noteq> None) = (map_of r c \<noteq> None \<or> CHR ''.'' \<in> set c)"
  by (auto simp: projected_def split: option.splits)

lemma select_groups_result:
  assumes "select_groups L st (select0, from0, where_clause, order_clause) = Inr res"
  shows "\<exists>tnames join_info t0 later src.
           parse_from (strip from0) = Inr (tnames, join_info)
         \<and> get_table_objs st tnames = Inr (t0 # later)
         \<and> res = map (project_row (parse_columns (strip select0) t0)) src"
proof -
  from assms obtain tnames join_info where pf: "parse_from (strip from0) = Inr (tnames, join_info)"
    by (cases "parse_from (strip from0)") (auto simp: select_groups_def)
  from assms pf obtain objs where go: "get_table_objs st tnames = Inr objs"
    by (cases "get_table_objs st tnames") (auto simp: select_groups_def)
  from assms pf go obtain t0 later where objs: "objs = t0 # later"
    by (cases objs) (auto simp: select_groups_def)
  from assms pf go objs obtain src
    where "res = map (project_row (parse_columns (strip select0) t0)) src"
    by (auto simp: select_groups_def Let_def split: sum.splits)
  with pf go objs show ?thesis by blast
qed

text \<open>
  Claim C6, as amended. A select list \<open>*\<close> expands to the first table's declared column
  names in declaration order; any other select list is split at commas into the literally
  requested names. Each output row is the projection of a result row: a requested key that
  the row holds is output with its value (in request order); a requested key that the row
  lacks is omitted when its name has no dot, and is output with a null value when its name
  has a dot. No case raises.
\<close>

theorem projection_of_requested_columns:
  "parse_columns ''*'' t0 = map col_name (columns t0)
   \<and> (select_clause \<noteq> ''*'' \<longrightarrow>
        parse_columns select_clause t0 = map strip (split_char (CHR '','') select_clause))
   \<and> map_of (project_row cols r) c
       = (if c \<in> set cols
          then (case map_of r c of
                  Some v \<Rightarrow> Some v
                | None \<Rightarrow> if CHR ''.'' \<in> set c then Some VNone else None)
          else None)
   \<and> (distinct cols \<longrightarrow>
        map fst (project_row cols r)
          = filter (\<lambda>c. map_of r c \<noteq> None \<or> CHR ''.'' \<in> set c) cols)
   \<and> (select_groups L st (select0, from0, where_clause, order_clause) = Inr res \<longrightarrow>
        (\<exists>tnames join_info first_table later src.
            parse_from (strip from0) = Inr (tnames, join_info)
          \<and> get_table_objs st tnames = Inr (first_table # later)
          \<and> res = map (project_row (parse_columns (strip select0) first_table)) src))"
proof (intro conjI impI)
  show "parse_columns ''*'' t0 = map col_name (columns t0)"
    by (simp add: parse_columns_def)
  show "parse_columns select_clause t0 = map strip (split_char (CHR '','') select_clause)"
    if "select_clause \<noteq> ''*''"
    using that by (simp add: parse_columns_def)
  show "map_of (project_row cols r) c
       = (if c \<in> set cols
          then (case map_of r c of
                  Some v \<Rightarrow> Some v
                | None \<Rightarrow> if CHR ''.'' \<in> set c then Some VNone else None)
          else None)"
    by (simp add: project_row_fold map_of_fold_project) (simp add: projected_def)
  show "map fst (project_row cols r)
          = filter (\<lambda>c. map_of r c \<noteq> None \<or> CHR ''.'' \<in> set c) cols"
    if "distinct cols"
  proof -
    have "map fst (project_row cols r) = filter (\<lambda>c. projected r c \<noteq> None) cols"
      using keys_fold_project[OF that, of "[]" r] by (simp add: project_row_fold)
    then show ?thesis by (simp only: projected_present)
  qed
  show "\<exists>tnames join_info first_table later src.
            parse_from (strip from0) = Inr (tnames, join_info)
          \<and> get_table_objs st tnames = Inr (first_table # later)
          \<and> res = map (project_row (parse_columns (strip select0) first_table)) src"
    if "select_groups L st (select0, from0, where_clause, order_clause) = Inr res"
    using that by (rule select_groups_result)
qed

theorem projection_of_requested_columns_witness:
  "''id, name'' \<noteq> ''*''
   \<and> parse_columns ''id, name'' demo_t = map strip (split_char (CHR '','') ''id, name'')
   \<and> distinct [''name'', ''zip'', ''id'']
   \<and> map fst (project_row [''name'', ''zip'', ''id''] [(''id'', VInt 1), (''name'', VText ''a'')])
       = filter (\<lambda>c. map_of [(''id'', VInt 1), (''name'', VText ''a'')] c \<noteq> None
                       \<or> CHR ''.'' \<in> set c) [''name'', ''zip'', ''id'']
   \<and> select_groups demo_lib demo_db (''*'', ''t'', None, None)
       = Inr [[(''id'', VInt 1), (''name'', VText ''a'')], [(''id'', VInt 2), (''name'', VText ''b'')]]
   \<and> (\<exists>tnames join_info first_table later src.
            parse_from (strip ''t'') = Inr (tnames, join_info)
          \<and> get_table_objs demo_db tnames = Inr (first_table # later)
          \<and> [[(''id'', VInt 1), (''name'', VText ''a'')], [(''id'', VInt 2), (''name'', VText ''b'')]]
              = map (project_row (parse_columns (strip ''*'') first_table)) src)"
proof -
  have h1: "''id, name'' \<noteq> ''*''" by simp
  have h2: "distinct [''name'', ''zip'', ''id'']" by simp
  have h3: "select_groups demo_lib demo_db (''*'', ''t'', None, None)
       = Inr [[(''id'', VInt 1), (''name'', VText ''a'')], [(''id'', VInt 2), (''name'', VText ''b'')]]"
    by code_simp
  from projection_of_requested_columns[of demo_t "''id, name''" "[''name'', ''zip'', ''id'']"
      "[(''id'', VInt 1), (''name'', VText ''a'')]" "''id''" demo_lib demo_db "''*''" "''t''" None None
      "[[(''id'', VInt 1), (''name'', VText ''a'')], [(''id'', VInt 2), (''name'', VText ''b'')]]"]
    h1 h2 h3
  show ?thesis by blast
qed

text \<open>
  The claim as stated omits every absent key. A counterexample:
  \<^verbatim>\<open>SELECT id, x.y FROM t\<close> outputs the key \<open>x.y\<close>, absent from every row, with a null.
\<close>

theorem absent_dotted_column_kept:
  "map_of [(''id'', VInt 1), (''name'', VText ''a'')] ''x.y'' = None
   \<and> project_row [''id'', ''x.y''] [(''id'', VInt 1), (''name'', VText ''a'')]
       = [(''id'', VInt 1), (''x.y'', VNone)]
   \<and> select_groups demo_lib demo_db (''id, x.y'', ''t'', None, None)
       = Inr [[(''id'', VInt 1), (''x.y'', VNone)], [(''id'', VInt 2), (''x.y'', VNone)]]"
  by code_simp

section \<open>AND before OR\<close>

lemma plain_from_last: "plain_from kw x \<Longrightarrow> x \<noteq> [] \<Longrightarrow> \<not> isspace (last x)"
  by (induction x) (auto split: if_splits)

lemma length_upper: "length (upper s) = length s"
  by (simp add: upper_def)

lemma upper_append: "upper (a @ b) = upper a @ upper b"
  by (simp add: upper_def)

lemma upper_take: "upper (take n s) = take n (upper s)"
  by (simp add: upper_def take_map)

lemma starts_like_append:
  assumes "starts_like kw (s @ z)" "z = [] \<or> isspace (hd z)" "\<not> list_ex isspace kw"
  shows "starts_like kw s"
proof (cases "length kw \<le> length s")
  case True
  then show ?thesis using assms(1) by (simp add: starts_like_def)
next
  case False
  from assms(1) have eq: "upper (take (length kw) (s @ z)) = kw" by (simp add: starts_like_def)
  then have "length (take (length kw) (s @ z)) = length kw" by (metis length_upper)
  with False have z: "z \<noteq> []" by auto
  with assms(2) have sp: "isspace (hd z)" by simp
  from False have lt: "length s < length kw" by simp
  have "kw ! length s = upper (take (length kw) (s @ z)) ! length s" using eq by simp
  also have "\<dots> = upper_char (hd z)"
    using lt z by (cases z) (simp_all add: upper_def take_map nth_append)
  also have "\<dots> = hd z" using sp by (rule isspace_upper_char)
  finally have "isspace (kw ! length s)" using sp by simp
  with lt have "list_ex isspace kw" by (auto simp: list_ex_iff)
  with assms(3) show ?thesis by simp
qed

lemma not_starts_like_no_keyword:
  assumes "\<not> starts_like kw t" "z = [] \<or> isspace (hd z)" "\<not> list_ex isspace kw"
  shows "upper (take (length kw) (t @ z)) \<noteq> kw"
proof
  assume "upper (take (length kw) (t @ z)) = kw"
  then have "starts_like kw (t @ z)" by (simp add: starts_like_def)
  from starts_like_append[OF this assms(2,3)] assms(1) show False by simp
qed

lemma plain_from_skip_run:
  "plain_from kw s \<Longrightarrow> s \<noteq> [] \<Longrightarrow> isspace (hd s) \<Longrightarrow>
   \<exists>t. t \<noteq> [] \<and> \<not> isspace (hd t) \<and> \<not> starts_like kw t \<and> dropWhile isspace (s @ z) = t @ z"
proof (induction s)
  case Nil
  then show ?case by simp
next
  case (Cons c cs)
  from Cons.prems have c: "isspace c" and ne: "cs \<noteq> []"
    and nx: "isspace (hd cs) \<or> \<not> starts_like kw cs" and pf: "plain_from kw cs"
    by (auto split: if_splits)
  show ?case
  proof (cases "isspace (hd cs)")
    case True
    from Cons.IH[OF pf ne True] c show ?thesis by simp
  next
    case False
    with nx have "\<not> starts_like kw cs" by simp
    moreover have "dropWhile isspace ((c # cs) @ z) = cs @ z"
      using c ne False by (cases cs) auto
    ultimately show ?thesis using ne False by blast
  qed
qed

lemma plain_from_no_match:
  assumes "plain_from kw s" "s \<noteq> []" "z = [] \<or> isspace (hd z)" "\<not> list_ex isspace kw"
  shows "match_sep kw (s @ z) = None"
proof (cases "isspace (hd s)")
  case False
  then have "dropWhile isspace (s @ z) = s @ z" using assms(2) by (cases s) auto
  then show ?thesis by (simp add: match_sep_def Let_def)
next
  case True
  from plain_from_skip_run[OF assms(1,2) True, of z] obtain t
    where t: "\<not> starts_like kw t" "dropWhile isspace (s @ z) = t @ z" by blast
  from not_starts_like_no_keyword[OF t(1) assms(3,4)] t(2) show ?thesis
    by (simp add: match_sep_def Let_def)
qed

lemma re_split_plain_prefix:
  assumes z: "z = [] \<or> isspace (hd z)" and kw: "\<not> list_ex isspace kw"
  shows "plain_from kw x \<Longrightarrow>
   re_split kw (x @ z) = (x @ hd (re_split kw z)) # tl (re_split kw z)"
proof (induction x)
  case Nil
  then show ?case using re_split_nonempty[of kw z] by simp
next
  case (Cons c cs)
  from Cons.prems have pf: "plain_from kw cs" by simp
  have "match_sep kw ((c # cs) @ z) = None"
    using Cons.prems _ z kw by (rule plain_from_no_match) simp
  then show ?case using Cons.IH[OF pf] by simp
qed

lemma re_split_plain: "\<not> list_ex isspace kw \<Longrightarrow> plain_from kw x \<Longrightarrow> re_split kw x = [x]"
  using re_split_plain_prefix[of "[]" kw x] by simp

lemma space_not_A: "\<not> isspace (CHR ''A'')" "\<not> isspace (CHR ''O'')"
  by (simp_all add: isspace_def whitespace_def)

lemma keywords_no_space: "\<not> list_ex isspace ''AND''" "\<not> list_ex isspace ''OR''"
  by (simp_all add: isspace_def whitespace_def)

lemma keyword_AND: "''AND'' \<noteq> []" "\<not> isspace (hd ''AND'')" "\<not> list_ex isspace ''AND''"
  by (simp_all add: isspace_def whitespace_def)

lemma keyword_OR: "''OR'' \<noteq> []" "\<not> isspace (hd ''OR'')" "\<not> list_ex isspace ''OR''"
  by (simp_all add: isspace_def whitespace_def)

lemma after_space: "CHR '' '' # s = [] \<or> isspace (hd (CHR '' '' # s))"
  by (simp add: isspace_space)

lemma match_sep_AND:
  "y \<noteq> [] \<Longrightarrow> \<not> isspace (hd y) \<Longrightarrow> match_sep ''AND'' ('' AND '' @ y) = Some y"
  by (cases y) (simp_all add: match_sep_def Let_def isspace_space space_not_A upper_def upper_char_def)

lemma match_sep_OR:
  "y \<noteq> [] \<Longrightarrow> \<not> isspace (hd y) \<Longrightarrow> match_sep ''OR'' ('' OR '' @ y) = Some y"
  by (cases y) (simp_all add: match_sep_def Let_def isspace_space space_not_A upper_def upper_char_def)


lemma re_split_AND:
  assumes "plain_from ''AND'' x" "plain ''AND'' y"
  shows "re_split ''AND'' (x @ '' AND '' @ y) = [x, y]"
proof -
  from assms(2) have y: "y \<noteq> []" "\<not> isspace (hd y)" "plain_from ''AND'' y"
    by (simp_all add: plain_def)
  have "re_split ''AND'' ('' AND '' @ y) = [] # re_split ''AND'' y"
    using match_sep_AND[OF y(1,2)] by simp
  also have "\<dots> = [[], y]" using re_split_plain[OF keywords_no_space(1) y(3)] by simp
  finally show ?thesis
    using re_split_plain_prefix[OF after_space keywords_no_space(1) assms(1), of "''AND '' @ y"]
    by simp
qed

lemma re_split_OR:
  assumes "plain_from ''OR'' x" "plain ''OR'' y"
  shows "re_split ''OR'' (x @ '' OR '' @ y) = [x, y]"
proof -
  from assms(2) have y: "y \<noteq> []" "\<not> isspace (hd y)" "plain_from ''OR'' y"
    by (simp_all add: plain_def)
  have "re_split ''OR'' ('' OR '' @ y) = [] # re_split ''OR'' y"
    using match_sep_OR[OF y(1,2)] by simp
  also have "\<dots> = [[], y]" using re_split_plain[OF keywords_no_space(2) y(3)] by simp
  finally show ?thesis
    using re_split_plain_prefix[OF after_space keywords_no_space(2) assms(1), of "''OR '' @ y"]
    by simp
qed

lemma plain_from_not_contains:
  assumes kw: "kw \<noteq> []" "\<not> isspace (hd kw)" and ns: "\<not> list_ex isspace kw"
  shows "plain_from kw x \<Longrightarrow> \<not> contains (CHR '' '' # kw @ '' '') (upper x)"
proof (induction x)
  case Nil
  then show ?case by (simp add: upper_def)
next
  case (Cons c cs)
  have "match_sep kw ((c # cs) @ []) = None"
    using Cons.prems _ _ ns by (rule plain_from_no_match) simp_all
  then have "\<not> startswith (upper (c # cs)) (CHR '' '' # kw @ '' '')"
    using match_sep_at_head[OF _ kw, of "c # cs"] by auto
  moreover have "\<not> contains (CHR '' '' # kw @ '' '') (upper cs)"
    using Cons by simp
  ultimately show ?case by (simp add: upper_def)
qed

lemma contains_append: "contains p (a @ p @ b)"
proof (induction a)
  case Nil
  show ?case
  proof (cases "p @ b")
    case Nil
    then show ?thesis by simp
  next
    case (Cons c cs)
    have "startswith (p @ b) p" by (simp add: startswith_def)
    then show ?thesis using Cons by simp
  qed
next
  case (Cons c a)
  then show ?case by simp
qed

lemma strip_unchanged:
  assumes "s \<noteq> []" "\<not> isspace (hd s)" "\<not> isspace (last s)"
  shows "strip s = s"
proof -
  have "dropWhile isspace s = s" using assms(1,2) by (cases s) auto
  moreover have "dropWhile isspace (rev s) = rev s"
    using assms(1,3) by (cases "rev s") (auto simp: hd_rev)
  ultimately show ?thesis by (simp add: strip_def strip_with_def)
qed

lemma plain_from_append:
  assumes y: "y = [] \<or> isspace (hd y)" and kw: "\<not> list_ex isspace kw"
  shows "plain_from kw x \<Longrightarrow> plain_from kw y \<Longrightarrow> x \<noteq> [] \<Longrightarrow> plain_from kw (x @ y)"
proof (induction x)
  case Nil
  then show ?case by simp
next
  case (Cons c cs)
  show ?case
  proof (cases "cs = []")
    case True
    with Cons.prems show ?thesis by (auto split: if_splits)
  next
    case False
    from Cons.prems have pf: "plain_from kw cs" by simp
    have rest: "plain_from kw (cs @ y)" using Cons.IH[OF pf Cons.prems(2) False] .
    have "\<not> starts_like kw (cs @ y)" if "\<not> starts_like kw cs"
      using that starts_like_append[OF _ y kw] by blast
    moreover have "hd (cs @ y) = hd cs" using False by simp
    ultimately show ?thesis using Cons.prems(1) rest False by (auto split: if_splits)
  qed
qed

lemma plain_strip: "plain kw x \<Longrightarrow> strip x = x"
  unfolding plain_def using strip_unchanged plain_from_last by blast

lemma atom_is_comparison:
  assumes "atom x"
  shows "evaluate_where L r x = eval_comparison L r x operators"
proof -
  from assms have p: "plain ''AND'' x" "plain ''OR'' x" by (simp_all add: atom_def)
  have "\<not> contains '' AND '' (upper x)"
    using plain_from_not_contains[OF keyword_AND, of x] p(1) by (simp add: plain_def)
  moreover have "\<not> contains '' OR '' (upper x)"
    using plain_from_not_contains[OF keyword_OR, of x] p(2) by (simp add: plain_def)
  ultimately show ?thesis
    by (subst evaluate_where.simps) (simp add: plain_strip[OF p(1)] Let_def)
qed


lemma all_results_pair: "all_results f [x, y] = lazy_and (f x) (f y)"
  by (cases "f x"; cases "f y") (auto simp: lazy_and_def)

lemma any_results_pair: "any_results f [x, y] = lazy_or (f x) (f y)"
  by (cases "f x"; cases "f y") (auto simp: lazy_or_def)

lemma upper_AND: "upper '' AND '' = '' AND ''" and upper_OR: "upper '' OR '' = '' OR ''"
  by (simp_all add: upper_def upper_char_def)

lemma not_starts_like_OR_AND: "\<not> starts_like ''AND'' (''OR '' @ b)"
  by (simp add: starts_like_def upper_def upper_char_def)

lemma disjunction_plain_AND:
  assumes "atom a" "atom b"
  shows "plain ''AND'' (a @ '' OR '' @ b)"
proof -
  from assms have a: "a \<noteq> []" "\<not> isspace (hd a)" "\<not> starts_like ''AND'' a" "plain_from ''AND'' a"
    and b: "b \<noteq> []" "\<not> isspace (hd b)" "\<not> starts_like ''AND'' b" "plain_from ''AND'' b"
    by (simp_all add: atom_def plain_def)
  have "plain_from ''AND'' (CHR '' '' # ''OR '' @ b)"
    using b not_starts_like_OR_AND[of b]
    by (simp add: isspace_space isspace_def[of "CHR ''O''"] isspace_def[of "CHR ''R''"]
        whitespace_def)
  from plain_from_append[OF after_space keywords_no_space(1) a(4) this a(1)]
  have "plain_from ''AND'' (a @ '' OR '' @ b)" by simp
  moreover have "\<not> starts_like ''AND'' (a @ '' OR '' @ b)"
  proof
    assume "starts_like ''AND'' (a @ '' OR '' @ b)"
    then have "starts_like ''AND'' (a @ CHR '' '' # ''OR '' @ b)" by simp
    from starts_like_append[OF this after_space keywords_no_space(1)] a(3) show False by simp
  qed
  ultimately show ?thesis using a(1,2) by (simp add: plain_def)
qed

lemma evaluate_disjunction:
  assumes "atom a" "atom b"
  shows "evaluate_where L r (a @ '' OR '' @ b)
       = lazy_or (eval_comparison L r a operators) (eval_comparison L r b operators)"
proof -
  define x where "x = a @ '' OR '' @ b"
  have px: "plain ''AND'' x" unfolding x_def using assms by (rule disjunction_plain_AND)
  have sx: "strip x = x" using px by (rule plain_strip)
  have nand: "\<not> contains '' AND '' (upper x)"
    using plain_from_not_contains[OF keyword_AND, of x] px by (simp add: plain_def)
  have "upper x = upper a @ '' OR '' @ upper b"
    by (simp add: x_def upper_def upper_char_def)
  then have cor: "contains '' OR '' (upper x)" by (simp only: contains_append)
  have sp: "re_split ''OR'' x = [a, b]"
    unfolding x_def using assms by (intro re_split_OR) (simp_all add: atom_def plain_def)
  have "evaluate_where L r x = any_results (evaluate_where L r) [a, b]"
    by (subst evaluate_where.simps) (simp only: sx nand cor sp Let_def if_True if_False)
  also have "\<dots> = lazy_or (evaluate_where L r a) (evaluate_where L r b)"
    by (rule any_results_pair)
  also have "\<dots> = lazy_or (eval_comparison L r a operators) (eval_comparison L r b operators)"
    by (simp only: atom_is_comparison[OF assms(1)] atom_is_comparison[OF assms(2)])
  finally show ?thesis unfolding x_def .
qed

text \<open>
  Claim C8. Predicate evaluation looks for AND first: a condition whose upper-cased text
  contains \<^verbatim>\<open>" AND "\<close> is split at every AND and is the conjunction of its parts,
  whether or not it also contains OR; only a condition without AND is split at OR into
  disjuncts. So for single comparisons A, B and C, the text \<open>A OR B AND C\<close> evaluates as
  (A or B) and C, and \<open>A OR B\<close> as A or B.
\<close>

theorem and_is_split_before_or:
  assumes "atom a" "atom b" "atom c"
  shows "evaluate_where L r (a @ '' OR '' @ b @ '' AND '' @ c)
           = lazy_and (lazy_or (eval_comparison L r a operators) (eval_comparison L r b operators))
                      (eval_comparison L r c operators)
       \<and> evaluate_where L r (a @ '' OR '' @ b)
           = lazy_or (eval_comparison L r a operators) (eval_comparison L r b operators)
       \<and> (\<forall>condition. contains '' AND '' (upper (strip condition)) \<longrightarrow>
             evaluate_where L r condition
               = all_results (evaluate_where L r) (re_split ''AND'' (strip condition)))
       \<and> (\<forall>condition. \<not> contains '' AND '' (upper (strip condition))
                       \<and> contains '' OR '' (upper (strip condition)) \<longrightarrow>
             evaluate_where L r condition
               = any_results (evaluate_where L r) (re_split ''OR'' (strip condition)))"
proof (intro conjI allI impI)
  define x where "x = a @ '' OR '' @ b"
  define w where "w = x @ '' AND '' @ c"
  have w_eq: "a @ '' OR '' @ b @ '' AND '' @ c = w" by (simp add: w_def x_def)
  have px: "plain ''AND'' x" unfolding x_def using assms(1,2) by (rule disjunction_plain_AND)
  from assms(3) have pc: "plain ''AND'' c" by (simp add: atom_def)
  then have c: "c \<noteq> []" "plain_from ''AND'' c" by (simp_all add: plain_def)
  from px have x: "x \<noteq> []" "\<not> isspace (hd x)" "plain_from ''AND'' x" by (simp_all add: plain_def)
  have "last w = last c" using c(1) by (simp add: w_def)
  then have "\<not> isspace (last w)" using plain_from_last[OF c(2,1)] by simp
  moreover have "hd w = hd x" using x(1) by (simp add: w_def)
  ultimately have sw: "strip w = w" using x(1,2) by (intro strip_unchanged) (simp_all add: w_def)
  have "upper w = upper x @ '' AND '' @ upper c"
    by (simp add: w_def upper_def upper_char_def)
  then have cand: "contains '' AND '' (upper w)" by (simp only: contains_append)
  have sp: "re_split ''AND'' w = [x, c]" unfolding w_def using x(3) pc by (rule re_split_AND)
  have "evaluate_where L r w = all_results (evaluate_where L r) [x, c]"
    by (subst evaluate_where.simps) (simp only: sw cand sp Let_def if_True)
  also have "\<dots> = lazy_and (evaluate_where L r x) (evaluate_where L r c)"
    by (rule all_results_pair)
  also have "\<dots> = lazy_and (lazy_or (eval_comparison L r a operators)
                                   (eval_comparison L r b operators))
                          (eval_comparison L r c operators)"
    by (simp only: x_def evaluate_disjunction[OF assms(1,2)] atom_is_comparison[OF assms(3)])
  finally show "evaluate_where L r (a @ '' OR '' @ b @ '' AND '' @ c)
           = lazy_and (lazy_or (eval_comparison L r a operators) (eval_comparison L r b operators))
                      (eval_comparison L r c operators)"
    unfolding w_eq .
  show "evaluate_where L r (a @ '' OR '' @ b)
           = lazy_or (eval_comparison L r a operators) (eval_comparison L r b operators)"
    using assms(1,2) by (rule evaluate_disjunction)
  show "evaluate_where L r condition
               = all_results (evaluate_where L r) (re_split ''AND'' (strip condition))"
    if "contains '' AND '' (upper (strip condition))" for condition
    using that by (subst evaluate_where.simps) (simp add: Let_def)
  show "evaluate_where L r condition
               = any_results (evaluate_where L r) (re_split ''OR'' (strip condition))"
    if "\<not> contains '' AND '' (upper (strip condition))
          \<and> contains '' OR '' (upper (strip condition))" for condition
    using that by (subst evaluate_where.simps) (simp add: Let_def)
qed

theorem and_is_split_before_or_witness:
  "atom ''id = 1'' \<and> atom ''name = b'' \<and> atom ''id < 1''
   \<and> evaluate_where demo_lib [(''id'', VInt 1), (''name'', VText ''a'')]
        (''id = 1'' @ '' OR '' @ ''name = b'' @ '' AND '' @ ''id < 1'')
       = lazy_and (lazy_or (eval_comparison demo_lib [(''id'', VInt 1), (''name'', VText ''a'')]
                              ''id = 1'' operators)
                           (eval_comparison demo_lib [(''id'', VInt 1), (''name'', VText ''a'')]
                              ''name = b'' operators))
                  (eval_comparison demo_lib [(''id'', VInt 1), (''name'', VText ''a'')]
                     ''id < 1'' operators)
   \<and> evaluate_where demo_lib [(''id'', VInt 1), (''name'', VText ''a'')]
        (''id = 1'' @ '' OR '' @ ''name = b'' @ '' AND '' @ ''id < 1'') = Inr False
   \<and> contains '' AND '' (upper (strip ''id = 1 OR name = b AND id < 1''))"
proof -
  have h1: "atom ''id = 1''" by code_simp
  have h2: "atom ''name = b''" by code_simp
  have h3: "atom ''id < 1''" by code_simp
  have h4: "contains '' AND '' (upper (strip ''id = 1 OR name = b AND id < 1''))" by code_simp
  have h5: "lazy_and (lazy_or (eval_comparison demo_lib [(''id'', VInt 1), (''name'', VText ''a'')]
                              ''id = 1'' operators)
                           (eval_comparison demo_lib [(''id'', VInt 1), (''name'', VText ''a'')]
                              ''name = b'' operators))
                  (eval_comparison demo_lib [(''id'', VInt 1), (''name'', VText ''a'')]
                     ''id < 1'' operators) = Inr False"
    by code_simp
  from and_is_split_before_or[OF h1 h2 h3, of demo_lib "[(''id'', VInt 1), (''name'', VText ''a'')]"]
    h1 h2 h3 h4 h5
  show ?thesis by simp
qed

section \<open>Index maintenance\<close>

lemma demo_t_reached:
  "tables (fst (insert_groups demo_lib (fst (insert_groups demo_lib
       (fst (create_table_groups empty_engine
          (''t'', ''id INTEGER PRIMARY KEY, name TEXT NOT NULL'')))
       (''t'', None, ''1, '' @ quoted ''a''))) (''t'', None, ''2, '' @ quoted ''b''))) ''t''
     = Some demo_t"
  by code_simp

lemma py_eq_refl: "py_eq a a"
  by (cases a) (simp_all add: py_eq_def)

lemma py_eq_sym: "py_eq a b \<Longrightarrow> py_eq b a"
  by (auto simp: py_eq_def split: option.splits)

lemma py_eq_trans: "py_eq a b \<Longrightarrow> py_eq b c \<Longrightarrow> py_eq a c"
  by (auto simp: py_eq_def split: option.splits)

lemma key_eq_refl: "key_eq k k"
  by (simp add: key_eq_def list_all2_refl py_eq_refl)

lemma key_eq_sym: "key_eq k k' \<Longrightarrow> key_eq k' k"
  unfolding key_eq_def by (simp add: list_all2_conv_all_nth py_eq_sym)

lemma key_eq_trans: "key_eq k k' \<Longrightarrow> key_eq k' k'' \<Longrightarrow> key_eq k k''"
  unfolding key_eq_def using py_eq_trans by (rule list_all2_trans)

lemma entries_get_Nil: "entries_get [] key = []"
  by (simp add: entries_get_def)

lemma entries_get_Cons:
  "entries_get ((k, ps) # es) key = (if key_eq k key then ps else entries_get es key)"
  by (simp add: entries_get_def)

lemma entries_get_append:
  "entries_get (entries_append key p es) key'
     = (if key_eq key key' then entries_get es key' @ [p] else entries_get es key')"
proof (induction es)
  case Nil
  then show ?case by (simp add: entries_get_Nil entries_get_Cons)
next
  case (Cons e es)
  obtain k ps where e: "e = (k, ps)" by (cases e)
  show ?case
  proof (cases "key_eq k key")
    case True
    show ?thesis
    proof (cases "key_eq k key'")
      case yes: True
      with True have "key_eq key key'" using key_eq_sym key_eq_trans by blast
      with True yes show ?thesis by (simp add: e entries_get_Cons)
    next
      case no: False
      with True have "\<not> key_eq key key'" using key_eq_trans by blast
      with True no show ?thesis by (simp add: e entries_get_Cons)
    qed
  next
    case False
    show ?thesis
    proof (cases "key_eq k key'")
      case yes: True
      with False have "\<not> key_eq key key'" using key_eq_sym key_eq_trans by blast
      with False yes show ?thesis by (simp add: e entries_get_Cons)
    next
      case no: False
      with False show ?thesis by (simp add: e entries_get_Cons Cons.IH)
    qed
  qed
qed

lemma entries_get_cong: "key_eq k k' \<Longrightarrow> entries_get es k = entries_get es k'"
proof (induction es)
  case Nil
  then show ?case by (simp add: entries_get_Nil)
next
  case (Cons e es)
  obtain k0 ps where e: "e = (k0, ps)" by (cases e)
  have "key_eq k0 k = key_eq k0 k'"
    using Cons.prems key_eq_sym key_eq_trans by blast
  with Cons show ?case by (simp add: e entries_get_Cons)
qed

lemma entries_get_source:
  "p \<in> set (entries_get es key) \<Longrightarrow> \<exists>k ps. (k, ps) \<in> set es \<and> key_eq k key \<and> p \<in> set ps"
proof (induction es)
  case Nil
  then show ?case by (simp add: entries_get_Nil)
next
  case (Cons e es)
  obtain k0 ps0 where e: "e = (k0, ps0)" by (cases e)
  show ?case
  proof (cases "key_eq k0 key")
    case True
    with Cons.prems e show ?thesis by (auto simp: entries_get_Cons)
  next
    case False
    with Cons.prems e have "p \<in> set (entries_get es key)" by (simp add: entries_get_Cons)
    from Cons.IH[OF this] show ?thesis by auto
  qed
qed

lemma entries_append_member:
  "(k, ps) \<in> set (entries_append key p es) \<Longrightarrow>
   (k, ps) \<in> set es \<or> (k = key \<and> ps = [p])
   \<or> (\<exists>ps0. (k, ps0) \<in> set es \<and> key_eq k key \<and> ps = ps0 @ [p])"
proof (induction es)
  case Nil
  then show ?case by simp
next
  case (Cons e es)
  obtain k0 ps0 where e: "e = (k0, ps0)" by (cases e)
  show ?case
  proof (cases "key_eq k0 key")
    case True
    with Cons.prems e show ?thesis by auto
  next
    case False
    with Cons.prems e have "(k, ps) = (k0, ps0) \<or> (k, ps) \<in> set (entries_append key p es)"
      by simp
    then show ?thesis using Cons.IH e by auto
  qed
qed

lemma entries_ok_step:
  assumes "entries_ok cols rs n es"
  shows "entries_ok cols rs (Suc n) (entries_append (index_key cols (rs ! n)) n es)"
proof -
  have missing: "p \<in> set (entries_get (entries_append (index_key cols (rs ! n)) n es)
                       (index_key cols (rs ! p)))" if "p < Suc n" for p
    using assms that
    by (cases "p = n") (auto simp: entries_ok_def entries_get_append key_eq_refl)
  have stale: "p < Suc n \<and> key_eq k (index_key cols (rs ! p))"
    if a: "(k, ps) \<in> set (entries_append (index_key cols (rs ! n)) n es)" "p \<in> set ps"
    for k ps p
  proof -
    from entries_append_member[OF a(1)]
    consider "(k, ps) \<in> set es" | "k = index_key cols (rs ! n)" "ps = [n]"
      | ps0 where "(k, ps0) \<in> set es" "key_eq k (index_key cols (rs ! n))" "ps = ps0 @ [n]"
      by blast
    then show ?thesis
    proof cases
      case 1
      with a(2) assms have "p < n \<and> key_eq k (index_key cols (rs ! p))"
        unfolding entries_ok_def by blast
      then show ?thesis by simp
    next
      case 2
      with a(2) show ?thesis by (simp add: key_eq_refl)
    next
      case 3
      show ?thesis
      proof (cases "p = n")
        case True
        with 3 show ?thesis by simp
      next
        case False
        with a(2) 3 have "p \<in> set ps0" by simp
        with 3(1) assms have "p < n \<and> key_eq k (index_key cols (rs ! p))"
          unfolding entries_ok_def by blast
        then show ?thesis by simp
      qed
    qed
  qed
  show ?thesis unfolding entries_ok_def using missing stale by blast
qed

lemma index_rows_from_ok:
  "entries_ok cols (pre @ rs) (length pre) es \<Longrightarrow>
   entries_ok cols (pre @ rs) (length pre + length rs) (index_rows_from cols (length pre) rs es)"
proof (induction rs arbitrary: pre es)
  case Nil
  then show ?case by simp
next
  case (Cons r rs)
  from entries_ok_step[OF Cons.prems]
  have "entries_ok cols ((pre @ [r]) @ rs) (length (pre @ [r]))
          (entries_append (index_key cols r) (length pre) es)"
    by simp
  from Cons.IH[OF this] show ?case by simp
qed

lemma fresh_is_consistent:
  assumes "index_fresh rs idx"
  shows "index_consistent_with rs idx"
proof -
  have "entries_ok (column_names idx) ([] @ rs) (length ([] :: row list)) []"
    by (simp add: entries_ok_def entries_get_Nil)
  from index_rows_from_ok[OF this]
  have "entries_ok (column_names idx) rs (length rs) (entries idx)"
    using assms by (simp add: index_fresh_def)
  then show ?thesis
    unfolding entries_ok_def index_consistent_with_def
    by (auto simp: list_all_iff)
qed

lemma index_consistent_with_iff:
  assumes "index_consistent_with rs idx"
  shows "p \<in> set (entries_get (entries idx) key)
         \<longleftrightarrow> p < length rs \<and> key_eq (index_key (column_names idx) (rs ! p)) key"
proof
  assume "p \<in> set (entries_get (entries idx) key)"
  from entries_get_source[OF this] obtain k ps
    where k: "(k, ps) \<in> set (entries idx)" "key_eq k key" "p \<in> set ps" by blast
  with assms have "p < length rs \<and> key_eq k (index_key (column_names idx) (rs ! p))"
    by (auto simp: index_consistent_with_def list_all_iff)
  with k(2) show "p < length rs \<and> key_eq (index_key (column_names idx) (rs ! p)) key"
    using key_eq_sym key_eq_trans by blast
next
  assume a: "p < length rs \<and> key_eq (index_key (column_names idx) (rs ! p)) key"
  with assms have "p \<in> set (entries_get (entries idx) (index_key (column_names idx) (rs ! p)))"
    by (auto simp: index_consistent_with_def list_all_iff)
  with a show "p \<in> set (entries_get (entries idx) key)"
    using entries_get_cong by metis
qed

lemma table_fresh_consistent: "table_fresh table \<Longrightarrow> index_consistent table"
  unfolding table_fresh_def index_consistent_def
  by (auto simp: list_all_iff dest: fresh_is_consistent)


lemma index_rows_from_snoc:
  "index_rows_from cols i (rs @ [r]) es
     = entries_append (index_key cols r) (i + length rs) (index_rows_from cols i rs es)"
  by (induction rs arbitrary: i es) simp_all

lemma list_all_update:
  "list_all P al \<Longrightarrow> P (k, v) \<Longrightarrow> list_all P (AList.update k v al)"
  by (induction al) auto

lemma new_table_fresh: "table_fresh (new_table tname cols)"
proof -
  have "list_all (\<lambda>(n, idx). entries idx = []) (create_default_indexes cols pk)" for pk
  proof -
    have "list_all (\<lambda>(n, idx). entries idx = []) acc \<Longrightarrow>
          list_all (\<lambda>(n, idx). entries idx = [])
            (fold (\<lambda>col idxs.
                     if is_unique col \<and> Some col \<noteq> pk
                     then AList.update (''__unique_'' @ col_name col) (new_index [col_name col]) idxs
                     else idxs) cs acc)" for cs acc
    proof (induction cs arbitrary: acc)
      case Nil
      then show ?case by simp
    next
      case (Cons c cs)
      have "list_all (\<lambda>(n, idx). entries idx = [])
              (AList.update (''__unique_'' @ col_name c) (new_index [col_name c]) acc)"
        using Cons.prems by (intro list_all_update) (simp_all add: new_index_def)
      with Cons show ?case by simp
    qed
    then show ?thesis
      by (simp add: create_default_indexes_def new_index_def split: option.splits)
  qed
  then show ?thesis
    by (auto simp: table_fresh_def new_table_def Let_def index_fresh_def list_all_iff)
qed

lemma add_row_fresh: "table_fresh table \<Longrightarrow> table_fresh (add_row table r)"
  by (auto simp: table_fresh_def add_row_def Let_def index_fresh_def list_all_iff
      index_rows_from_snoc)

lemma rebuild_indexes_fresh: "table_fresh (rebuild_indexes table)"
  by (auto simp: table_fresh_def rebuild_indexes_def rebuild_index_def index_fresh_def
      list_all_iff)

lemma insert_keeps_fresh:
  assumes "tables st tname = Some table" "table_fresh table"
    and "insert_groups L st (tname, columns_str, values_str) = (st', Inr res)"
  shows "\<exists>table'. tables st' tname = Some table' \<and> table_fresh table'"
proof -
  from assms(1,3) obtain vals
    where "st' = save_table (st\<lparr>tables := (tables st)(tname \<mapsto>
               add_row table (candidate_row table columns_str vals))\<rparr>) tname"
    by (auto simp: insert_groups_def Let_def split: if_splits option.splits sum.splits)
  then show ?thesis using add_row_fresh[OF assms(2)] by (simp add: save_after_store)
qed

lemma update_keeps_fresh:
  assumes "tables st tname = Some table" "table_fresh table"
    and "update_groups L st (tname, set_clause, where_clause) = (st', Inr res)"
  shows "\<exists>table'. tables st' tname = Some table' \<and> table_fresh table'"
proof -
  from assms(1,3) obtain updates
    where u: "parse_set L (split_char (CHR '','') (strip set_clause)) [] = Inr updates"
    by (auto simp: update_groups_def split: sum.splits)
  obtain rs out where sw: "update_sweep L (columns table) updates where_clause
      [0..<length (rows table)] (rows table) 0 = (rs, out)"
    by (cases "update_sweep L (columns table) updates where_clause
      [0..<length (rows table)] (rows table) 0")
  from assms(1,3) u sw obtain n where out: "out = Inr n"
    by (cases out) (auto simp: update_groups_def)
  show ?thesis
  proof (cases "n > 0")
    case True
    with assms(1,3) u sw out
    have "st' = save_table (st\<lparr>tables := (tables st)(tname \<mapsto> rebuild_indexes (table\<lparr>rows := rs\<rparr>))\<rparr>)
        tname"
      by (simp add: update_groups_def Let_def)
    then show ?thesis using rebuild_indexes_fresh by (simp add: save_after_store)
  next
    case False
    with update_sweep_count[OF sw[unfolded out]] have "rs = rows table" by simp
    moreover from False assms(1,3) u sw out
    have "st' = st\<lparr>tables := (tables st)(tname \<mapsto> table\<lparr>rows := rs\<rparr>)\<rparr>"
      by (simp add: update_groups_def Let_def)
    ultimately show ?thesis using assms(2) by simp
  qed
qed

lemma delete_keeps_fresh:
  assumes "tables st tname = Some table" "table_fresh table"
    and "delete_groups L st (tname, where_clause) = (st', Inr res)"
  shows "\<exists>table'. tables st' tname = Some table' \<and> table_fresh table'"
proof -
  from assms(1,3) obtain ps where ps: "rows_to_delete L where_clause 0 (rows table) = Inr ps"
    by (auto simp: delete_groups_def split: sum.splits)
  show ?thesis
  proof (cases "ps = []")
    case False
    with assms(1,3) ps obtain T
      where "st' = save_table (st\<lparr>tables := (tables st)(tname \<mapsto> rebuild_indexes T)\<rparr>) tname"
      by (auto simp: delete_groups_def Let_def)
    then show ?thesis using rebuild_indexes_fresh by (simp add: save_after_store)
  next
    case True
    with assms(1,3) ps have "st' = st\<lparr>tables := (tables st)(tname \<mapsto> table\<lparr>rows := rows table\<rparr>)\<rparr>"
      by (simp add: delete_groups_def Let_def)
    then show ?thesis using assms(2) by simp
  qed
qed

lemma successful_mutations_keep_indexes_consistent:
  assumes "tables st tname = Some table" "table_fresh table"
    and "insert_groups L st (tname, columns_str, values_str) = (st', Inr res)
         \<or> update_groups L st (tname, set_clause, where_clause) = (st', Inr res)
         \<or> delete_groups L st (tname, where_clause) = (st', Inr res)"
  shows "\<exists>table'. tables st' tname = Some table' \<and> table_fresh table' \<and> index_consistent table'"
  using assms insert_keeps_fresh update_keeps_fresh delete_keeps_fresh table_fresh_consistent
  by metis

text \<open>
  Claim C2 asks that after any sequence of INSERT, UPDATE and DELETE statements every index
  lists position \<open>p\<close> under a key exactly when the row at \<open>p\<close> has that key. The
  statements that succeed keep this (lemma \<open>successful_mutations_keep_indexes_consistent\<close>),
  but an UPDATE that raises in the middle of its sweep does not. On the sample table \<open>t\<close>,
  whose index is consistent, \<^verbatim>\<open>UPDATE t SET id = 5\<close> updates the first row, raises on
  the second (the value 5 is now taken), and returns without rebuilding: the row at
  position 0 holds 5, the index still lists position 0 under 1 and has no entry for 5.
\<close>

theorem failed_update_leaves_stale_index:
  "index_consistent demo_t
   \<and> snd (execute_sql demo_lib demo_db ''UPDATE t SET id = 5'')
       = Inl (ValueError (''Duplicate value for unique column '' @ quoted ''id''))
   \<and> map_option rows (tables (fst (execute_sql demo_lib demo_db ''UPDATE t SET id = 5'')) ''t'')
       = Some [[(''id'', VInt 5), (''name'', VText ''a'')], [(''id'', VInt 2), (''name'', VText ''b'')]]
   \<and> map_option indexes (tables (fst (execute_sql demo_lib demo_db ''UPDATE t SET id = 5'')) ''t'')
       = Some [(''__primary'', \<lparr>column_names = [''id''],
                                 entries = [([VInt 1], [0]), ([VInt 2], [1])]\<rparr>)]
   \<and> map_option index_consistent
         (tables (fst (execute_sql demo_lib demo_db ''UPDATE t SET id = 5'')) ''t'')
       = Some False"
  by code_simp

end
